theory Spec2Isabelle
  imports Main
begin

section \<open>Go strings\<close>

text \<open>
  A Go \<^verbatim>\<open>string\<close> is a sequence of bytes; it is modelled as a \<^typ>\<open>string\<close>, a list of
  8-bit characters. The functions of package \<^verbatim>\<open>strings\<close> that
  \<^verbatim>\<open>cli/daemon/dash/ai/parser.go\<close> calls are modelled on bytes.
\<close>

text \<open>\<^verbatim>\<open>strings.Split(s, "\n")\<close>: the result always has at least one element.\<close>

fun strings_Split :: "string \<Rightarrow> string list" where
  "strings_Split [] = [[]]"
| "strings_Split (c # cs) =
     (if c = CHR 0x0A then [] # strings_Split cs
      else (case strings_Split cs of
              [] \<Rightarrow> [[c]]
            | l # ls \<Rightarrow> (c # l) # ls))"

text \<open>\<^verbatim>\<open>strings.Join(xs, "\n")\<close>.\<close>

fun strings_Join :: "string list \<Rightarrow> string" where
  "strings_Join [] = []"
| "strings_Join [x] = x"
| "strings_Join (x # y # ys) = x @ CHR 0x0A # strings_Join (y # ys)"

text \<open>\<^verbatim>\<open>strings.HasPrefix(s, p)\<close>.\<close>

definition strings_HasPrefix :: "string \<Rightarrow> string \<Rightarrow> bool" where
  "strings_HasPrefix s p = (length p \<le> length s \<and> take (length p) s = p)"

text \<open>\<^verbatim>\<open>strings.TrimPrefix(s, p)\<close>.\<close>

definition strings_TrimPrefix :: "string \<Rightarrow> string \<Rightarrow> string" where
  "strings_TrimPrefix s p = (if strings_HasPrefix s p then drop (length p) s else s)"

text \<open>
  \<^verbatim>\<open>strings.Cut(s, sep)\<close> for a separator of one byte: the text before the first
  occurrence, the text after it, and whether the separator occurs.
\<close>

definition strings_Cut :: "string \<Rightarrow> char \<Rightarrow> string \<times> string \<times> bool" where
  "strings_Cut s c =
     (if c \<in> set s
      then (takeWhile (\<lambda>x. x \<noteq> c) s, drop 1 (dropWhile (\<lambda>x. x \<noteq> c) s), True)
      else (s, [], False))"

text \<open>
  \<^verbatim>\<open>strings.TrimSpace\<close> removes leading and trailing white space as
  \<^verbatim>\<open>unicode.IsSpace\<close> defines it: the code points U+0009 to U+000D, U+0020, U+0085,
  U+00A0, U+1680, U+2000 to U+200A, U+2028, U+2029, U+202F, U+205F and U+3000. On bytes,
  these are the UTF-8 encodings listed in \<open>space_runes\<close>; no encoding in the list is a
  prefix or a suffix of another one.
\<close>

definition space_runes :: "string list" where
  "space_runes =
     [[CHR 0x09], [CHR 0x0A], [CHR 0x0B], [CHR 0x0C], [CHR 0x0D], [CHR 0x20],
      [CHR 0xC2, CHR 0x85], [CHR 0xC2, CHR 0xA0],
      [CHR 0xE1, CHR 0x9A, CHR 0x80],
      [CHR 0xE2, CHR 0x80, CHR 0x80], [CHR 0xE2, CHR 0x80, CHR 0x81],
      [CHR 0xE2, CHR 0x80, CHR 0x82], [CHR 0xE2, CHR 0x80, CHR 0x83],
      [CHR 0xE2, CHR 0x80, CHR 0x84], [CHR 0xE2, CHR 0x80, CHR 0x85],
      [CHR 0xE2, CHR 0x80, CHR 0x86], [CHR 0xE2, CHR 0x80, CHR 0x87],
      [CHR 0xE2, CHR 0x80, CHR 0x88], [CHR 0xE2, CHR 0x80, CHR 0x89],
      [CHR 0xE2, CHR 0x80, CHR 0x8A],
      [CHR 0xE2, CHR 0x80, CHR 0xA8], [CHR 0xE2, CHR 0x80, CHR 0xA9],
      [CHR 0xE2, CHR 0x80, CHR 0xAF],
      [CHR 0xE2, CHR 0x81, CHR 0x9F],
      [CHR 0xE3, CHR 0x80, CHR 0x80]]"

text \<open>The number of bytes of the white-space rune that \<open>s\<close> starts with, 0 if there is none.\<close>

definition space_width :: "string list \<Rightarrow> string \<Rightarrow> nat" where
  "space_width runes s =
     (case find (strings_HasPrefix s) runes of None \<Rightarrow> 0 | Some q \<Rightarrow> length q)"

function trim_front :: "string list \<Rightarrow> string \<Rightarrow> string" where
  "trim_front runes s =
     (if space_width runes s = 0 then s
      else trim_front runes (drop (space_width runes s) s))"
  by pat_completeness auto
termination
proof (relation "measure (\<lambda>(runes, s). length s)")
  show "wf (measure (\<lambda>(runes, s). length s))"
    by simp
next
  fix runes :: "string list" and s :: string
  assume w: "space_width runes s \<noteq> 0"
  then obtain q where q: "find (strings_HasPrefix s) runes = Some q" and "length q \<noteq> 0"
    by (auto simp: space_width_def split: option.splits)
  from q have "strings_HasPrefix s q"
    by (auto simp: find_Some_iff)
  with \<open>length q \<noteq> 0\<close> have "s \<noteq> []"
    by (auto simp: strings_HasPrefix_def)
  with w show "((runes, drop (space_width runes s) s), (runes, s)) \<in> measure (\<lambda>(runes, s). length s)"
    by simp
qed

declare trim_front.simps [simp del]

definition TrimLeft :: "string \<Rightarrow> string" where
  "TrimLeft s = trim_front space_runes s"

text \<open>Trailing runes are found on the reversed string, against the reversed encodings.\<close>

definition TrimRight :: "string \<Rightarrow> string" where
  "TrimRight s = rev (trim_front (map rev space_runes) (rev s))"

definition strings_TrimSpace :: "string \<Rightarrow> string" where
  "strings_TrimSpace s = TrimRight (TrimLeft s)"

section \<open>The section extractor: \<^verbatim>\<open>parseDocSection\<close>\<close>

text \<open>
  A Go panic is a value of the model. An index or a slice expression out of range is the
  run-time panic \<open>IndexOutOfRange\<close>.
\<close>

datatype panic = IndexOutOfRange | Bailout

record DocEntry =
  Key :: string
  Doc :: string

text \<open>
  The variables of the first loop: \<^verbatim>\<open>start\<close>, \<^verbatim>\<open>end\<close> (both \<open>-1\<close> at first) and the
  slice \<^verbatim>\<open>lines\<close>, which the loop overwrites line by line.
\<close>

record scan_state =
  sc_start :: int
  sc_end :: int
  sc_lines :: "string list"

text \<open>The test of line 77: the trimmed line starts with the section label and a colon.\<close>

definition is_label :: "string \<Rightarrow> string \<Rightarrow> bool" where
  "is_label section line = strings_HasPrefix (strings_TrimSpace line) (section @ '':'')"

text \<open>
  The test of lines 82 to 88: a line of more than two bytes whose first two bytes, trimmed,
  are neither \<^verbatim>\<open>"-"\<close> nor empty. (The slice \<^verbatim>\<open>line[:2]\<close> is in range under the guard.)
\<close>

definition is_terminator :: "string \<Rightarrow> bool" where
  "is_terminator line =
     (length line > 2 \<and> strings_TrimSpace (take 2 line) \<noteq> ''-''
        \<and> strings_TrimSpace (take 2 line) \<noteq> [])"

text \<open>
  The loop of lines 75 to 94, at index \<open>i\<close>, over the elements that \<^verbatim>\<open>range\<close> still has
  to visit. \<^verbatim>\<open>range lines\<close> reads element \<open>i\<close> when iteration \<open>i\<close> starts, and the body
  writes element \<open>i\<close> only, so the loop visits the original lines. The \<^verbatim>\<open>break\<close> of line 87
  is inside the \<^verbatim>\<open>switch\<close>: it leaves the \<^verbatim>\<open>switch\<close>, not the loop, and the iteration goes on
  at line 90. The \<^verbatim>\<open>break\<close> of line 92 leaves the loop.
\<close>

fun scan :: "string \<Rightarrow> nat \<Rightarrow> string list \<Rightarrow> scan_state \<Rightarrow> panic + scan_state" where
  "scan section i [] st = Inr st"
| "scan section i (line # rest) st =
     (let st1 = st\<lparr>sc_end := int i\<rparr> in
      if \<not> is_label section line \<and> sc_start st1 = -1 then scan section (Suc i) rest st1
      else
        let st2 = (if is_label section line then st1\<lparr>sc_start := int i\<rparr>
                   else if is_terminator line then st1\<lparr>sc_end := int i - 1\<rparr>
                   else st1)
        in if length (sc_lines st2) \<le> i then Inl IndexOutOfRange
           else
             let st3 = st2\<lparr>sc_lines := (sc_lines st2)[i := strings_TrimSpace line]\<rparr>
             in if line = [] then
                  (if i = 0 then Inl IndexOutOfRange
                   else if sc_lines st3 ! (i - 1) = [] then Inr st3
                   else scan section (Suc i) rest st3)
                else scan section (Suc i) rest st3)"

text \<open>The loop of lines 99 to 111 over the lines of the section, with \<^verbatim>\<open>errs\<close> so far.\<close>

fun entries :: "string list \<Rightarrow> DocEntry list \<Rightarrow> DocEntry list" where
  "entries [] errs = errs"
| "entries (line # rest) errs =
     (case strings_Cut line (CHR '':'') of
        (key0, doc, ok) \<Rightarrow>
          let key = strings_TrimSpace (strings_TrimPrefix key0 ''-'') in
          if ok then entries rest (errs @ [\<lparr>Key = key, Doc = strings_TrimSpace doc\<rparr>])
          else if length errs > 0 \<and> line \<noteq> [] then
            entries rest
              (butlast errs @ [(last errs)\<lparr>Doc := Doc (last errs) @ CHR 0x0A # line\<rparr>])
          else entries rest errs)"

text \<open>
  The slice expression \<^verbatim>\<open>xs[lo:hi]\<close> on a slice whose capacity is its length: it panics
  unless \<open>0 \<le> lo \<le> hi \<le> len(xs)\<close>.
\<close>

definition slice :: "'a list \<Rightarrow> int \<Rightarrow> int \<Rightarrow> panic + 'a list" where
  "slice xs lo hi =
     (if 0 \<le> lo \<and> lo \<le> hi \<and> hi \<le> int (length xs)
      then Inr (take (nat hi - nat lo) (drop (nat lo) xs))
      else Inl IndexOutOfRange)"

definition parseDocSection :: "string \<Rightarrow> string \<Rightarrow> panic + (string \<times> DocEntry list)" where
  "parseDocSection doc section =
     (let lines = strings_Split doc in
      case scan section 0 lines \<lparr>sc_start = -1, sc_end = -1, sc_lines = lines\<rparr> of
        Inl p \<Rightarrow> Inl p
      | Inr st \<Rightarrow>
          if sc_start st = -1 then Inr (doc, [])
          else
            (case slice (sc_lines st) (sc_start st + 1) (sc_end st + 1) of
               Inl p \<Rightarrow> Inl p
             | Inr body \<Rightarrow>
                 (case slice (sc_lines st) 0 (sc_start st) of
                    Inl p \<Rightarrow> Inl p
                  | Inr head \<Rightarrow> Inr (strings_Join head, entries body []))))"

section \<open>The annotation mappers: \<^verbatim>\<open>parseErrorDoc\<close> and \<^verbatim>\<open>parsePathDoc\<close>\<close>

text \<open>
  Modelled from the spec: the constants \<^verbatim>\<open>ErrDocPrefix\<close> and \<^verbatim>\<open>PathDocPrefix\<close> are used
  by \<^verbatim>\<open>parser.go\<close> and declared in another file of the package. The spec gives the labels:
  \<^verbatim>\<open>"errors"\<close> for the error annotations and \<^verbatim>\<open>"path params"\<close> for the path parameters.
\<close>

definition ErrDocPrefix :: string where
  "ErrDocPrefix = ''errors''"

definition PathDocPrefix :: string where
  "PathDocPrefix = ''path params''"

record ErrorInput =
  ei_Code :: string
  ei_Doc :: string

definition parseErrorDoc :: "string \<Rightarrow> panic + (string \<times> ErrorInput list)" where
  "parseErrorDoc doc =
     (case parseDocSection doc ErrDocPrefix of
        Inl p \<Rightarrow> Inl p
      | Inr (doc', errs) \<Rightarrow>
          Inr (doc', map (\<lambda>e. \<lparr>ei_Code = Key e, ei_Doc = Doc e\<rparr>) errs))"

text \<open>The map \<^verbatim>\<open>rtn\<close> is filled in the order of the entries: a later key overwrites.\<close>

definition parsePathDoc :: "string \<Rightarrow> panic + (string \<times> (string \<rightharpoonup> string))" where
  "parsePathDoc doc =
     (case parseDocSection doc PathDocPrefix of
        Inl p \<Rightarrow> Inl p
      | Inr (doc', docs) \<Rightarrow>
          Inr (doc', foldl (\<lambda>rtn d. rtn(Key d \<mapsto> Doc d)) Map.empty docs))"

section \<open>What one extraction consumes and what it leaves\<close>

text \<open>The first loop of \<^verbatim>\<open>parseDocSection\<close> on a document.\<close>

definition scan_doc :: "string \<Rightarrow> string \<Rightarrow> panic + scan_state" where
  "scan_doc doc section =
     scan section 0 (strings_Split doc)
       \<lparr>sc_start = -1, sc_end = -1, sc_lines = strings_Split doc\<rparr>"

text \<open>
  The lines of the section, from the label line \<^verbatim>\<open>lines[start]\<close> to the last consumed line
  \<^verbatim>\<open>lines[end]\<close>, as the loop leaves them; no line when the label is not found.
\<close>

definition consumed :: "string \<Rightarrow> string \<Rightarrow> string list" where
  "consumed doc section =
     (case scan_doc doc section of
        Inl p \<Rightarrow> []
      | Inr st \<Rightarrow>
          if sc_start st = -1 then []
          else take (nat (sc_end st + 1 - sc_start st)) (drop (nat (sc_start st)) (sc_lines st)))"

text \<open>The lines of the document after the last consumed line; none when the label is not found.\<close>

definition dropped :: "string \<Rightarrow> string \<Rightarrow> string list" where
  "dropped doc section =
     (case scan_doc doc section of
        Inl p \<Rightarrow> []
      | Inr st \<Rightarrow>
          if sc_start st = -1 then []
          else drop (nat (sc_end st + 1)) (strings_Split doc))"

text \<open>Lines up to white-space trimming: every line trimmed, blank lines left out.\<close>

definition normalise :: "string list \<Rightarrow> string list" where
  "normalise ls = filter (\<lambda>l. l \<noteq> []) (map strings_TrimSpace ls)"

text \<open>
  The remainder of \<^verbatim>\<open>parseErrorDoc\<close> then \<^verbatim>\<open>parsePathDoc\<close>, followed by the sections that the
  two calls consumed.
\<close>

definition reconstruct :: "string \<Rightarrow> string list" where
  "reconstruct doc =
     (case parseErrorDoc doc of
        Inl p \<Rightarrow> []
      | Inr (r1, errs) \<Rightarrow>
          (case parsePathDoc r1 of
             Inl p \<Rightarrow> []
           | Inr (r2, docs) \<Rightarrow>
               strings_Split r2 @ consumed r1 PathDocPrefix @ consumed doc ErrDocPrefix))"

text \<open>The same, with the lines that each call dropped after its section.\<close>

definition reconstruct_all :: "string \<Rightarrow> string list" where
  "reconstruct_all doc =
     (case parseErrorDoc doc of
        Inl p \<Rightarrow> []
      | Inr (r1, errs) \<Rightarrow>
          (case parsePathDoc r1 of
             Inl p \<Rightarrow> []
           | Inr (r2, docs) \<Rightarrow>
               strings_Split r2 @ consumed r1 PathDocPrefix @ dropped r1 PathDocPrefix
                 @ consumed doc ErrDocPrefix @ dropped doc ErrDocPrefix))"

text \<open>The index of the first label line; the number of lines when there is none.\<close>

definition first_label :: "string \<Rightarrow> string list \<Rightarrow> nat" where
  "first_label section ls = length (takeWhile (\<lambda>l. \<not> is_label section l) ls)"

text \<open>
  The first \<open>m\<close> lines once the loop has visited them: the lines before the first label
  line are as they were, the lines from the first label line on are trimmed.
\<close>

definition scanned_lines :: "string \<Rightarrow> string list \<Rightarrow> nat \<Rightarrow> string list" where
  "scanned_lines section ls m =
     take (min m (first_label section ls)) ls
       @ map strings_TrimSpace
           (take (m - first_label section ls) (drop (first_label section ls) ls))"

text \<open>The invariant of the first loop when it is about to visit line \<open>m\<close> of \<open>ls\<close>.\<close>

definition scan_ok :: "string \<Rightarrow> string list \<Rightarrow> nat \<Rightarrow> scan_state \<Rightarrow> bool" where
  "scan_ok section ls m st =
     (m \<le> length ls \<and> length (sc_lines st) = length ls
      \<and> take m (sc_lines st) = scanned_lines section ls m
      \<and> drop m (sc_lines st) = drop m ls
      \<and> (if sc_start st = -1 then m \<le> first_label section ls \<and> sc_end st < int m
          else int (first_label section ls) \<le> sc_start st \<and> sc_start st \<le> sc_end st
               \<and> sc_end st < int m \<and> is_label section (ls ! nat (sc_start st))))"

section \<open>The declaration correlator and the orchestrator: \<^verbatim>\<open>parseCode\<close>\<close>

text \<open>
  The declarations come from the parsing collaborator. Of a type, the model keeps what
  \<^verbatim>\<open>parseCode\<close> reads: for a named type its rendering \<^verbatim>\<open>String()\<close> and the doc comment
  \<^verbatim>\<open>DeclInfo.Doc\<close>, for a struct its fields (name, rendered type, doc).
\<close>

record StructField =
  sf_Name :: string
  sf_Type :: string
  sf_Doc :: string

datatype schema_Type =
    NamedType string string
  | PointerType schema_Type
  | StructType "StructField list"
  | OtherType string

text \<open>\<^verbatim>\<open>deref\<close> (lines 115 to 123) follows pointers down to the first type that is not one.\<close>

fun deref :: "schema_Type \<Rightarrow> schema_Type" where
  "deref (PointerType t) = deref t"
| "deref t = t"

text \<open>
  \<^verbatim>\<open>deref(p).(schema.NamedType)\<close> on a type that may be the nil interface: the rendering
  and the doc comment of the named type, if it is one.
\<close>

definition named_type :: "schema_Type option \<Rightarrow> (string \<times> string) option" where
  "named_type p =
     (case p of
        None \<Rightarrow> None
      | Some t \<Rightarrow> (case deref t of NamedType n d \<Rightarrow> Some (n, d) | _ \<Rightarrow> None))"

record ParameterEncoding =
  pe_SrcName :: string
  pe_WireName :: string
  pe_Location :: string
  pe_Type :: string
  pe_Doc :: string

record PathSegmentDecl =
  seg_Type :: string
  seg_Value :: string

text \<open>
  An \<^verbatim>\<open>api.Endpoint\<close>: \<open>ep_RequestEncoding\<close> is \<^verbatim>\<open>RequestEncoding()\<close>, each element by its
  \<^verbatim>\<open>AllParameters()\<close>; \<open>ep_ResponseEncoding\<close> is \<^verbatim>\<open>ResponseEncoding()\<close>, \<open>None\<close> for nil.
\<close>

record Endpoint =
  ep_File :: string
  ep_Doc :: string
  ep_Name :: string
  ep_HTTPMethods :: "string list"
  ep_Access :: string
  ep_Path :: "PathSegmentDecl list"
  ep_Request :: "schema_Type option"
  ep_Response :: "schema_Type option"
  ep_RequestEncoding :: "ParameterEncoding list list"
  ep_ResponseEncoding :: "ParameterEncoding list option"

datatype Resource = EndpointResource Endpoint | OtherResource

record TypeDecl =
  td_File :: string
  td_Name :: string
  td_Doc :: string
  td_Type :: schema_Type

datatype Decl = TypeDeclaration TypeDecl | OtherDeclaration

text \<open>The output records.\<close>

record TypeFieldInput =
  tf_Name :: string
  tf_WireName :: string
  tf_Location :: string
  tf_Type :: string
  tf_Doc :: string

record TypeInput =
  ti_Name :: string
  ti_Doc :: string
  ti_Fields :: "TypeFieldInput list"

record PathSegment =
  ps_Type :: string
  ps_Value :: string
  ps_Doc :: string

record EndpointInput =
  e_Name :: string
  e_Doc :: string
  e_Method :: string
  e_Visibility :: string
  e_Language :: string
  e_Path :: "PathSegment list"
  e_Errors :: "ErrorInput list"
  e_RequestType :: string
  e_ResponseType :: string
  e_Types :: "TypeInput list"

text \<open>
  Modelled from the spec: \<^verbatim>\<open>toPathSegments\<close> is declared in another file of the package.
  The spec: the path is built "by walking the declared path segments and attaching any
  matching path-parameter documentation by segment name".
\<close>

definition toPathSegments :: "PathSegmentDecl list \<Rightarrow> (string \<rightharpoonup> string) \<Rightarrow> PathSegment list" where
  "toPathSegments segs docs =
     map (\<lambda>s. \<lparr>ps_Type = seg_Type s, ps_Value = seg_Value s,
               ps_Doc = (case docs (seg_Value s) of None \<Rightarrow> [] | Some d \<Rightarrow> d)\<rparr>) segs"

text \<open>
  The targets. \<^verbatim>\<open>overlay.endpoint\<close> is a pointer to an endpoint record that the caller owns
  and that \<^verbatim>\<open>parseCode\<close> updates in place: the records live in a heap, and \<open>ov_get\<close> gives for
  a file the address of the record of the target that claims it (two files may share a
  record). The pointers that the collaborators hand out are taken to be non-nil.
  \<open>ov_validationErrors\<close> is the method that turns the diagnostics into validation errors.
\<close>

type_synonym addr = nat

type_synonym heap = "addr \<Rightarrow> EndpointInput"

record overlays =
  ov_get :: "string \<rightharpoonup> addr"
  ov_validationErrors :: "string list \<Rightarrow> string list"

text \<open>
  The state that the pass works on: the endpoint records and the diagnostics \<^verbatim>\<open>errs\<close>
  that the parsing collaborator has reported so far.
\<close>

record pass_state =
  st_heap :: heap
  st_errs :: "string list"

definition fieldOfParameter :: "ParameterEncoding \<Rightarrow> TypeFieldInput" where
  "fieldOfParameter f =
     \<lparr>tf_Name = pe_SrcName f, tf_WireName = pe_WireName f, tf_Location = pe_Location f,
      tf_Type = pe_Type f, tf_Doc = strings_TrimSpace (pe_Doc f)\<rparr>"

definition fieldOfStruct :: "StructField \<Rightarrow> TypeFieldInput" where
  "fieldOfStruct f =
     \<lparr>tf_Name = sf_Name f, tf_WireName = [], tf_Location = [],
      tf_Type = sf_Type f, tf_Doc = strings_TrimSpace (sf_Doc f)\<rparr>"

text \<open>Lines 189 to 206: the request type.\<close>

definition addRequest :: "Endpoint \<Rightarrow> EndpointInput \<Rightarrow> EndpointInput" where
  "addRequest r e =
     (case named_type (ep_Request r) of
        None \<Rightarrow> e
      | Some (n, d) \<Rightarrow>
          let e1 = e\<lparr>e_RequestType := n\<rparr> in
          (case ep_RequestEncoding r of
             [] \<Rightarrow> e1
           | enc # _ \<Rightarrow>
               e1\<lparr>e_Types := e_Types e1
                    @ [\<lparr>ti_Name = n, ti_Doc = strings_TrimSpace d,
                        ti_Fields = map fieldOfParameter enc\<rparr>]\<rparr>))"

text \<open>Lines 207 to 224: the response type.\<close>

definition addResponse :: "Endpoint \<Rightarrow> EndpointInput \<Rightarrow> EndpointInput" where
  "addResponse r e =
     (case named_type (ep_Response r) of
        None \<Rightarrow> e
      | Some (n, d) \<Rightarrow>
          let e1 = e\<lparr>e_ResponseType := n\<rparr> in
          (case ep_ResponseEncoding r of
             None \<Rightarrow> e1
           | Some enc \<Rightarrow>
               e1\<lparr>e_Types := e_Types e1
                    @ [\<lparr>ti_Name = n, ti_Doc = strings_TrimSpace d,
                        ti_Fields = map fieldOfParameter enc\<rparr>]\<rparr>))"

text \<open>
  Lines 174 to 224, for one endpoint: the panic raised, if any, and the state reached.
  \<^verbatim>\<open>r.HTTPMethods[0]\<close> panics on an endpoint without a method, after the assignments of
  lines 181 to 183.
\<close>

definition correlateEndpoint :: "overlays \<Rightarrow> Endpoint \<Rightarrow> pass_state \<Rightarrow> panic option \<times> pass_state" where
  "correlateEndpoint ov r st =
     (case ov_get ov (ep_File r) of
        None \<Rightarrow> (None, st)
      | Some a \<Rightarrow>
          (case parseErrorDoc (ep_Doc r) of
             Inl p \<Rightarrow> (Some p, st)
           | Inr (doc1, errors) \<Rightarrow>
               let h1 = (st_heap st)(a := (st_heap st a)\<lparr>e_Doc := doc1, e_Errors := errors\<rparr>) in
               (case parsePathDoc (e_Doc (h1 a)) of
                  Inl p \<Rightarrow> (Some p, st\<lparr>st_heap := h1\<rparr>)
                | Inr (doc2, pathDocs) \<Rightarrow>
                    let h2 = h1(a := (h1 a)\<lparr>e_Doc := doc2, e_Name := ep_Name r\<rparr>) in
                    (case ep_HTTPMethods r of
                       [] \<Rightarrow> (Some IndexOutOfRange, st\<lparr>st_heap := h2\<rparr>)
                     | m # _ \<Rightarrow>
                         let e3 = (h2 a)\<lparr>e_Method := m, e_Visibility := ep_Access r,
                                    e_Language := ''GO'',
                                    e_Path := toPathSegments (ep_Path r) pathDocs,
                                    e_Types := []\<rparr>
                         in (None, st\<lparr>st_heap := h2(a := addResponse r (addRequest r e3))\<rparr>)))))"

text \<open>Lines 229 to 254, for one parsed declaration.\<close>

definition correlateDecl :: "overlays \<Rightarrow> Decl \<Rightarrow> pass_state \<Rightarrow> pass_state" where
  "correlateDecl ov d st =
     (case d of
        OtherDeclaration \<Rightarrow> st
      | TypeDeclaration td \<Rightarrow>
          (case td_Type td of
             StructType flds \<Rightarrow>
               (case ov_get ov (td_File td) of
                  None \<Rightarrow> st
                | Some a \<Rightarrow>
                    if list_ex (\<lambda>t. ti_Name t = td_Name td) (e_Types (st_heap st a)) then st
                    else st\<lparr>st_heap := (st_heap st)
                           (a := (st_heap st a)\<lparr>e_Types := e_Types (st_heap st a)
                              @ [\<lparr>ti_Name = td_Name td, ti_Doc = strings_TrimSpace (td_Doc td),
                                  ti_Fields = map fieldOfStruct flds\<rparr>]\<rparr>)\<rparr>)
           | _ \<Rightarrow> st))"

text \<open>Lines 172 to 227: the resources of one package, in order.\<close>

fun correlateResources :: "overlays \<Rightarrow> Resource list \<Rightarrow> pass_state \<Rightarrow> panic option \<times> pass_state" where
  "correlateResources ov [] st = (None, st)"
| "correlateResources ov (OtherResource # rs) st = correlateResources ov rs st"
| "correlateResources ov (EndpointResource r # rs) st =
     (case correlateEndpoint ov r st of
        (Some p, st') \<Rightarrow> (Some p, st')
      | (None, st') \<Rightarrow> correlateResources ov rs st')"

text \<open>Lines 228 to 255: the parsed declarations, in order.\<close>

fun correlateDecls :: "overlays \<Rightarrow> Decl list \<Rightarrow> pass_state \<Rightarrow> pass_state" where
  "correlateDecls ov [] st = st"
| "correlateDecls ov (d # ds) st = correlateDecls ov ds (correlateDecl ov d st)"

text \<open>
  A call into the parsing collaborator reports diagnostics and then either aborts, with
  the bailout panic of the error list, or yields its result.
\<close>

datatype 'a ext = Aborts "string list" | Yields "string list" 'a

text \<open>Lines 160 to 163: one \<^verbatim>\<open>LoadPkg\<close> call for each package path.\<close>

fun loadPkgs :: "unit ext list \<Rightarrow> pass_state \<Rightarrow> panic option \<times> pass_state" where
  "loadPkgs [] st = (None, st)"
| "loadPkgs (Aborts ds # ls) st = (Some Bailout, st\<lparr>st_errs := st_errs st @ ds\<rparr>)"
| "loadPkgs (Yields ds u # ls) st = loadPkgs ls (st\<lparr>st_errs := st_errs st @ ds\<rparr>)"

text \<open>
  Lines 165 to 256: for each package, in the order in which the loop visits the map, the
  call \<^verbatim>\<open>apis.Parser.Run(pass)\<close> with what \<^verbatim>\<open>pass.Resources()\<close> and
  \<^verbatim>\<open>schemaParser.ParsedDecls()\<close> return after it.
\<close>

fun runPasses :: "overlays \<Rightarrow> (Resource list \<times> Decl list) ext list \<Rightarrow> pass_state
    \<Rightarrow> panic option \<times> pass_state" where
  "runPasses ov [] st = (None, st)"
| "runPasses ov (Aborts ds # ps) st = (Some Bailout, st\<lparr>st_errs := st_errs st @ ds\<rparr>)"
| "runPasses ov (Yields ds (rs, decls) # ps) st =
     (case correlateResources ov rs (st\<lparr>st_errs := st_errs st @ ds\<rparr>) of
        (Some p, st') \<Rightarrow> (Some p, st')
      | (None, st') \<Rightarrow> runPasses ov ps (correlateDecls ov decls st'))"

text \<open>
  Modelled from the spec: \<^verbatim>\<open>perr.CatchBailout\<close> is declared in another package of the
  repository. The spec: "an internal abort from the parsing collaborator is caught at the
  orchestrator boundary and converted into a best-effort result plus collected
  diagnostics". The result is the panic that goes on after the call, if any: none for the
  bailout of the parsing collaborator. The spec describes no recovery from a run-time panic
  of \<^verbatim>\<open>parseCode\<close> itself, and the model does not assume one.
\<close>

definition CatchBailout :: "panic option \<Rightarrow> panic option" where
  "CatchBailout recovered =
     (case recovered of
        None \<Rightarrow> None
      | Some Bailout \<Rightarrow> None
      | Some IndexOutOfRange \<Rightarrow> Some IndexOutOfRange)"

record 'svc SyncResult =
  Services :: "'svc list"
  Errors :: "string list"

text \<open>What the caller of \<^verbatim>\<open>parseCode\<close> observes: a panic, or the results \<^verbatim>\<open>(rtn, err)\<close>.\<close>

datatype 'svc outcome = Panics panic | Returns "'svc SyncResult option" "string option"

text \<open>
  The deferred function of lines 148 to 156, with the panic in flight, if any, and the
  result \<^verbatim>\<open>rtn\<close> set by the \<^verbatim>\<open>return\<close> statement, if it was reached.
\<close>

definition deferred :: "overlays \<Rightarrow> 'svc list \<Rightarrow> string list \<Rightarrow> panic option
    \<Rightarrow> 'svc SyncResult option \<Rightarrow> 'svc outcome" where
  "deferred ov services errs recovered rtn =
     (case CatchBailout recovered of
        Some p \<Rightarrow> Panics p
      | None \<Rightarrow>
          let rtn1 = (case rtn of
                        None \<Rightarrow> \<lparr>Services = services, Errors = []\<rparr>
                      | Some res \<Rightarrow> res)
          in Returns (Some (rtn1\<lparr>Errors := ov_validationErrors ov errs\<rparr>)) None)"

text \<open>
  \<^verbatim>\<open>parseCode\<close>: \<open>newOverlays\<close> is the result of the call of line 126, an error or the
  overlays; \<open>loads\<close> and \<open>passes\<close> are what the parsing collaborator does at each call.
  The result is what the caller observes and the endpoint records as the run leaves them.
\<close>

definition parseCode :: "string + overlays \<Rightarrow> 'svc list \<Rightarrow> unit ext list
    \<Rightarrow> (Resource list \<times> Decl list) ext list \<Rightarrow> heap \<Rightarrow> 'svc outcome \<times> heap" where
  "parseCode newOverlays services loads passes h =
     (case newOverlays of
        Inl err \<Rightarrow> (Returns None (Some err), h)
      | Inr ov \<Rightarrow>
          (case (case loadPkgs loads \<lparr>st_heap = h, st_errs = []\<rparr> of
                   (Some p, st) \<Rightarrow> (Some p, st)
                 | (None, st) \<Rightarrow> runPasses ov passes st) of
             (Some p, st) \<Rightarrow> (deferred ov services (st_errs st) (Some p) None, st_heap st)
           | (None, st) \<Rightarrow>
               (deferred ov services (st_errs st) None
                  (Some \<lparr>Services = services, Errors = []\<rparr>), st_heap st)))"

section \<open>Runs of the parsing collaborator\<close>

text \<open>The diagnostics that a sequence of calls reports, up to its first abort.\<close>

fun diags_of :: "'a ext list \<Rightarrow> string list" where
  "diags_of [] = []"
| "diags_of (Aborts ds # cs) = ds"
| "diags_of (Yields ds x # cs) = ds @ diags_of cs"

fun aborted :: "'a ext list \<Rightarrow> bool" where
  "aborted [] = False"
| "aborted (Aborts ds # cs) = True"
| "aborted (Yields ds x # cs) = aborted cs"

text \<open>The diagnostics accumulated in \<^verbatim>\<open>errs\<close> when the deferred function runs.\<close>

definition accumulated :: "unit ext list \<Rightarrow> (Resource list \<times> Decl list) ext list \<Rightarrow> string list" where
  "accumulated loads passes =
     diags_of loads @ (if aborted loads then [] else diags_of passes)"

text \<open>
  An endpoint declaration that line 184 can index: its file is claimed by no target, or
  it declares a method.
\<close>

definition has_method :: "overlays \<Rightarrow> Resource \<Rightarrow> bool" where
  "has_method ov res =
     (case res of
        OtherResource \<Rightarrow> True
      | EndpointResource r \<Rightarrow>
          (case ov_get ov (ep_File r) of
             None \<Rightarrow> True
           | Some a \<Rightarrow> ep_HTTPMethods r \<noteq> []))"

fun methods_ok :: "overlays \<Rightarrow> (Resource list \<times> Decl list) ext list \<Rightarrow> bool" where
  "methods_ok ov [] = True"
| "methods_ok ov (Aborts ds # ps) = True"
| "methods_ok ov (Yields ds (rs, decls) # ps) = (list_all (has_method ov) rs \<and> methods_ok ov ps)"

section \<open>Example declarations and targets\<close>

definition empty_endpoint :: EndpointInput where
  "empty_endpoint =
     \<lparr>e_Name = [], e_Doc = [], e_Method = [], e_Visibility = [], e_Language = [],
      e_Path = [], e_Errors = [], e_RequestType = [], e_ResponseType = [], e_Types = []\<rparr>"

text \<open>One target: the file \<^verbatim>\<open>svc/echo.go\<close>, with its endpoint record at address 0.\<close>

definition one_target :: overlays where
  "one_target =
     \<lparr>ov_get = [''svc/echo.go'' \<mapsto> 0], ov_validationErrors = (\<lambda>ds. ds)\<rparr>"

definition start_state :: pass_state where
  "start_state = \<lparr>st_heap = (\<lambda>a. empty_endpoint), st_errs = []\<rparr>"

text \<open>
  \<^verbatim>\<open>func Echo(ctx context.Context, p *Msg) (*Msg, error)\<close> with the methods GET and POST:
  the request and the response are the same named type, and both have an encoding.
\<close>

definition echo_endpoint :: Endpoint where
  "echo_endpoint =
     \<lparr>ep_File = ''svc/echo.go'', ep_Doc = ''Echo returns its input.'', ep_Name = ''Echo'',
      ep_HTTPMethods = [''GET'', ''POST''], ep_Access = ''public'',
      ep_Path = [\<lparr>seg_Type = ''literal'', seg_Value = ''echo''\<rparr>],
      ep_Request = Some (PointerType (NamedType ''Msg'' ''Msg is a message.'')),
      ep_Response = Some (PointerType (NamedType ''Msg'' ''Msg is a message.'')),
      ep_RequestEncoding =
        [[\<lparr>pe_SrcName = ''Text'', pe_WireName = ''text'', pe_Location = ''query'',
           pe_Type = ''string'', pe_Doc = []\<rparr>]],
      ep_ResponseEncoding =
        Some [\<lparr>pe_SrcName = ''Text'', pe_WireName = ''text'', pe_Location = ''body'',
                pe_Type = ''string'', pe_Doc = []\<rparr>]\<rparr>"

text \<open>Declarations in a file that no target claims.\<close>

definition stray_endpoint :: Endpoint where
  "stray_endpoint = echo_endpoint\<lparr>ep_File := ''other/list.go'', ep_HTTPMethods := []\<rparr>"

definition stray_struct :: TypeDecl where
  "stray_struct =
     \<lparr>td_File = ''other/list.go'', td_Name = ''Item'', td_Doc = [],
      td_Type = StructType [\<lparr>sf_Name = ''ID'', sf_Type = ''int'', sf_Doc = []\<rparr>]\<rparr>"

section \<open>The remainder as the spec describes it\<close>

text \<open>
  The spec of the section extractor: "the remainder is the original text with the section's
  lines (label through its last consumed line) removed, remaining lines joined back with
  line breaks"; the input unchanged when the label is not found.
\<close>

definition spec_remainder :: "string \<Rightarrow> string \<Rightarrow> string" where
  "spec_remainder doc section =
     (case scan_doc doc section of
        Inl p \<Rightarrow> doc
      | Inr st \<Rightarrow>
          if sc_start st = -1 then doc
          else strings_Join (take (nat (sc_start st)) (strings_Split doc) @ dropped doc section))"

text \<open>The remainder that \<^verbatim>\<open>parseDocSection\<close> returns; the input itself on a panic.\<close>

definition remainder_of :: "string \<Rightarrow> string \<Rightarrow> string" where
  "remainder_of doc section =
     (case parseDocSection doc section of Inl p \<Rightarrow> doc | Inr (r, errs) \<Rightarrow> r)"

section \<open>The body of the first loop\<close>

text \<open>
  One iteration of the loop of lines 75 to 94 at line \<open>i\<close>: \<open>Inr\<close> the state with which
  the loop goes on, \<open>Inl\<close> the result with which it ends (a panic, or the state at the
  \<^verbatim>\<open>break\<close> of line 92).
\<close>

definition scan_body :: "string \<Rightarrow> nat \<Rightarrow> string \<Rightarrow> scan_state
    \<Rightarrow> (panic + scan_state) + scan_state" where
  "scan_body section i line st =
     (let st1 = st\<lparr>sc_end := int i\<rparr> in
      if \<not> is_label section line \<and> sc_start st1 = -1 then Inr st1
      else
        let st2 = (if is_label section line then st1\<lparr>sc_start := int i\<rparr>
                   else if is_terminator line then st1\<lparr>sc_end := int i - 1\<rparr>
                   else st1)
        in if length (sc_lines st2) \<le> i then Inl (Inl IndexOutOfRange)
           else
             let st3 = st2\<lparr>sc_lines := (sc_lines st2)[i := strings_TrimSpace line]\<rparr>
             in if line = [] then
                  (if i = 0 then Inl (Inl IndexOutOfRange)
                   else if sc_lines st3 ! (i - 1) = [] then Inl (Inr st3)
                   else Inr st3)
                else Inr st3)"

text \<open>Two states of the loop that agree on \<^verbatim>\<open>start\<close>, \<^verbatim>\<open>end\<close> and the first \<open>n\<close> lines.\<close>

definition agree :: "nat \<Rightarrow> scan_state \<Rightarrow> scan_state \<Rightarrow> bool" where
  "agree n s t =
     (sc_start s = sc_start t \<and> sc_end s = sc_end t
      \<and> n \<le> length (sc_lines s) \<and> n \<le> length (sc_lines t)
      \<and> take n (sc_lines s) = take n (sc_lines t))"

text \<open>
  Two results of the loop that agree: the same panic, or two states that agree on the
  first \<open>n\<close> lines, with the section found and ending within them.
\<close>

definition results_agree :: "nat \<Rightarrow> panic + scan_state \<Rightarrow> panic + scan_state \<Rightarrow> bool" where
  "results_agree n r r' =
     (case r of
        Inl p \<Rightarrow> r' = Inl p
      | Inr s \<Rightarrow>
          (case r' of
             Inl p \<Rightarrow> False
           | Inr t \<Rightarrow> agree n s t \<and> sc_start s \<noteq> -1 \<and> sc_end s < int n))"


section \<open>The first loop of \<^verbatim>\<open>parseDocSection\<close>\<close>

lemma TrimSpace_Nil [simp]: "strings_TrimSpace [] = []"
  by (simp add: strings_TrimSpace_def TrimRight_def TrimLeft_def trim_front.simps
      space_width_def space_runes_def strings_HasPrefix_def)

lemma is_label_Nil [simp]: "\<not> is_label sec []"
  by (simp add: is_label_def strings_HasPrefix_def)

lemma first_label_le: "first_label sec ls \<le> length ls"
  by (simp add: first_label_def length_takeWhile_le)

lemma first_label_is_label:
  "first_label sec ls < length ls \<Longrightarrow> is_label sec (ls ! first_label sec ls)"
  unfolding first_label_def using nth_length_takeWhile [of "\<lambda>l. \<not> is_label sec l" ls] by simp

lemma before_first_label:
  "j < first_label sec ls \<Longrightarrow> \<not> is_label sec (ls ! j)"
  unfolding first_label_def using takeWhile_nth [of j "\<lambda>l. \<not> is_label sec l" ls]
    nth_mem [of j "takeWhile (\<lambda>l. \<not> is_label sec l) ls"] 
  by (metis (mono_tags, lifting) set_takeWhileD)

lemma scanned_lines_Suc:
  assumes "i < length ls"
  shows "scanned_lines sec ls (Suc i) =
     scanned_lines sec ls i
       @ [if first_label sec ls \<le> i then strings_TrimSpace (ls ! i) else ls ! i]"
proof (cases "first_label sec ls \<le> i")
  case True
  then have "Suc i - first_label sec ls = Suc (i - first_label sec ls)" by simp
  moreover have "i - first_label sec ls < length (drop (first_label sec ls) ls)"
    using assms True by simp
  ultimately show ?thesis using True assms
    by (simp add: scanned_lines_def take_Suc_conv_app_nth min_def)
next
  case False
  then show ?thesis using assms
    by (simp add: scanned_lines_def take_Suc_conv_app_nth min_def)
qed

lemma length_scanned_lines: "m \<le> length ls \<Longrightarrow> length (scanned_lines sec ls m) = m"
  using first_label_le [of sec ls] by (auto simp: scanned_lines_def min_def)

lemma drop_Cons_facts:
  assumes "line # rest = drop i ls"
  shows "i < length ls" and "ls ! i = line" and "rest = drop (Suc i) ls"
proof -
  show i: "i < length ls"
    using assms by (cases "i < length ls") auto
  show "ls ! i = line"
    using assms nth_via_drop [of i ls line rest] by simp
  show "rest = drop (Suc i) ls"
    using assms Cons_nth_drop_Suc [OF i] by (metis list.inject)
qed

lemma drop_Suc_cong: "drop i xs = drop i ys \<Longrightarrow> drop (Suc i) xs = drop (Suc i) ys"
  by (metis drop_Suc tl_drop)

lemma scan_ok_skip:
  assumes ok: "scan_ok sec ls i st" and i: "i < length ls"
    and nl: "\<not> is_label sec (ls ! i)" and s: "sc_start st = -1"
  shows "scan_ok sec ls (Suc i) (st\<lparr>sc_end := int i\<rparr>)"
proof -
  have "i \<noteq> first_label sec ls"
    using first_label_is_label [of sec ls] i nl by auto
  with ok s have lt: "i < first_label sec ls"
    by (simp add: scan_ok_def)
  have "sc_lines st ! i = ls ! i"
    using ok i by (metis scan_ok_def nth_via_drop Cons_nth_drop_Suc)
  then have "take (Suc i) (sc_lines st) = scanned_lines sec ls i @ [ls ! i]"
    using ok i by (simp add: scan_ok_def take_Suc_conv_app_nth)
  moreover have "drop (Suc i) (sc_lines st) = drop (Suc i) ls"
    using ok by (intro drop_Suc_cong) (simp add: scan_ok_def)
  ultimately show ?thesis
    using ok i s lt by (simp add: scan_ok_def scanned_lines_Suc)
qed

lemma scan_ok_visit:
  assumes ok: "scan_ok sec ls i st" and i: "i < length ls"
    and v: "is_label sec (ls ! i) \<or> sc_start st \<noteq> -1"
    and st2: "st2 = (if is_label sec (ls ! i) then st\<lparr>sc_end := int i, sc_start := int i\<rparr>
                   else if is_terminator (ls ! i) then st\<lparr>sc_end := int i - 1\<rparr>
                   else st\<lparr>sc_end := int i\<rparr>)"
  shows "scan_ok sec ls (Suc i) (st2\<lparr>sc_lines := (sc_lines st2)[i := strings_TrimSpace (ls ! i)]\<rparr>)"
    and "sc_start st2 \<noteq> -1" and "ls ! i = [] \<Longrightarrow> 0 < i"
proof -
  have fl: "first_label sec ls \<le> i"
  proof (cases "is_label sec (ls ! i)")
    case True
    then show ?thesis using before_first_label [of i sec ls] by (cases "i < first_label sec ls") auto
  next
    case False
    with v ok show ?thesis by (simp add: scan_ok_def)
  qed
  have len: "length (sc_lines st) = length ls"
    using ok by (simp add: scan_ok_def)
  have tk: "take (Suc i) ((sc_lines st)[i := strings_TrimSpace (ls ! i)])
      = scanned_lines sec ls (Suc i)"
    using ok i fl len by (simp add: scan_ok_def take_Suc_conv_app_nth scanned_lines_Suc)
  have dr: "drop (Suc i) ((sc_lines st)[i := strings_TrimSpace (ls ! i)]) = drop (Suc i) ls"
  proof -
    have "drop (Suc i) (sc_lines st) = drop (Suc i) ls"
      using ok by (intro drop_Suc_cong) (simp add: scan_ok_def)
    then show ?thesis by simp
  qed
  show "scan_ok sec ls (Suc i) (st2\<lparr>sc_lines := (sc_lines st2)[i := strings_TrimSpace (ls ! i)]\<rparr>)"
  proof -
    have lines: "sc_lines st2 = sc_lines st"
      unfolding st2 by simp
    have se: "sc_start st2 \<noteq> -1 \<and> int (first_label sec ls) \<le> sc_start st2
        \<and> sc_start st2 \<le> sc_end st2 \<and> sc_end st2 < int (Suc i)
        \<and> is_label sec (ls ! nat (sc_start st2))"
    proof (cases "is_label sec (ls ! i)")
      case True
      then show ?thesis using fl unfolding st2 by simp
    next
      case False
      with v have "sc_start st \<noteq> -1" by simp
      with ok have "int (first_label sec ls) \<le> sc_start st \<and> sc_start st \<le> sc_end st
          \<and> sc_end st < int i \<and> is_label sec (ls ! nat (sc_start st))"
        by (simp add: scan_ok_def)
      with False \<open>sc_start st \<noteq> -1\<close> show ?thesis unfolding st2 by simp
    qed
    show ?thesis
      unfolding scan_ok_def using i tk dr len se by (simp add: lines)
  qed
  show "sc_start st2 \<noteq> -1"
    using v unfolding st2 by auto
  show "0 < i" if "ls ! i = []"
    using that v ok by (auto simp: scan_ok_def split: if_splits)
qed

lemma scan_invariant:
  "scan_ok sec ls i st \<Longrightarrow> rest = drop i ls \<Longrightarrow>
     \<exists>st' m. scan sec i rest st = Inr st' \<and> i \<le> m \<and> scan_ok sec ls m st'
        \<and> (sc_start st' = -1 \<longrightarrow> m = length ls)"
proof (induction rest arbitrary: i st)
  case Nil
  then have "i = length ls" by (simp add: scan_ok_def)
  with Nil show ?case by auto
next
  case (Cons line rest)
  note d = drop_Cons_facts [OF Cons.prems(2)]
  show ?case
  proof (cases "\<not> is_label sec line \<and> sc_start st = -1")
    case True
    then have "scan_ok sec ls (Suc i) (st\<lparr>sc_end := int i\<rparr>)"
      using scan_ok_skip [OF Cons.prems(1) d(1)] d(2) by simp
    from Cons.IH [OF this d(3)] True show ?thesis
      by (auto simp: Let_def intro: Suc_leD)
  next
    case False
    define st2 where "st2 = (if is_label sec (ls ! i) then st\<lparr>sc_end := int i, sc_start := int i\<rparr>
                   else if is_terminator (ls ! i) then st\<lparr>sc_end := int i - 1\<rparr>
                   else st\<lparr>sc_end := int i\<rparr>)"
    define st3 where "st3 = st2\<lparr>sc_lines := (sc_lines st2)[i := strings_TrimSpace (ls ! i)]\<rparr>"
    from False have v: "is_label sec (ls ! i) \<or> sc_start st \<noteq> -1"
      using d(2) by auto
    note vis = scan_ok_visit [OF Cons.prems(1) d(1) v st2_def, folded st3_def]
    have len: "\<not> length (sc_lines st2) \<le> i"
      using Cons.prems(1) d(1) by (simp add: st2_def scan_ok_def)
    have step: "scan sec i (line # rest) st =
        (if line = [] then
           (if i = 0 then Inl IndexOutOfRange
            else if sc_lines st3 ! (i - 1) = [] then Inr st3
            else scan sec (Suc i) rest st3)
         else scan sec (Suc i) rest st3)"
      using False len d(2) by (auto simp: Let_def st2_def st3_def)
    show ?thesis
    proof (cases "line = [] \<and> sc_lines st3 ! (i - 1) = []")
      case True
      then have "scan sec i (line # rest) st = Inr st3"
        using step vis(3) d(2) by auto
      moreover have "sc_start st3 \<noteq> -1"
        using vis(2) by (simp add: st3_def)
      ultimately show ?thesis using vis(1) by (intro exI [of _ st3] exI [of _ "Suc i"]) simp
    next
      case False
      then have "scan sec i (line # rest) st = scan sec (Suc i) rest st3"
        using step vis(3) d(2) by auto
      with Cons.IH [OF vis(1) d(3)] show ?thesis
        by (auto intro: Suc_leD)
    qed
  qed
qed

lemma scan_ok_init:
  "scan_ok sec ls 0 \<lparr>sc_start = -1, sc_end = -1, sc_lines = ls\<rparr>"
  by (simp add: scan_ok_def scanned_lines_def)

lemma slice_ok:
  "0 \<le> lo \<Longrightarrow> lo \<le> hi \<Longrightarrow> hi \<le> int (length xs) \<Longrightarrow>
     slice xs lo hi = Inr (take (nat hi - nat lo) (drop (nat lo) xs))"
  by (simp add: slice_def)

lemma parseDocSection_scan:
  "\<exists>st m. scan_doc doc sec = Inr st \<and> scan_ok sec (strings_Split doc) m st
      \<and> (sc_start st = -1 \<longrightarrow> m = length (strings_Split doc))
      \<and> parseDocSection doc sec =
          Inr (if sc_start st = -1 then (doc, [])
               else (strings_Join (take (nat (sc_start st)) (sc_lines st)),
                     entries (take (nat (sc_end st + 1) - nat (sc_start st + 1))
                                (drop (nat (sc_start st + 1)) (sc_lines st))) []))"
proof -
  obtain st m where sc: "scan sec 0 (strings_Split doc)
        \<lparr>sc_start = -1, sc_end = -1, sc_lines = strings_Split doc\<rparr> = Inr st"
    and ok: "scan_ok sec (strings_Split doc) m st"
    and m: "sc_start st = -1 \<longrightarrow> m = length (strings_Split doc)"
    using scan_invariant [where i = 0 and ls = "strings_Split doc"
        and rest = "strings_Split doc" and sec = sec, OF scan_ok_init]
    by auto
  have res: "parseDocSection doc sec =
          Inr (if sc_start st = -1 then (doc, [])
               else (strings_Join (take (nat (sc_start st)) (sc_lines st)),
                     entries (take (nat (sc_end st + 1) - nat (sc_start st + 1))
                                (drop (nat (sc_start st + 1)) (sc_lines st))) []))"
  proof (cases "sc_start st = -1")
    case True
    then show ?thesis by (simp add: parseDocSection_def sc)
  next
    case False
    with ok have b: "0 \<le> sc_start st" "sc_start st \<le> sc_end st"
        "sc_end st < int (length (sc_lines st))"
      by (auto simp: scan_ok_def)
    have s1: "slice (sc_lines st) (sc_start st + 1) (sc_end st + 1)
        = Inr (take (nat (sc_end st + 1) - nat (sc_start st + 1))
                 (drop (nat (sc_start st + 1)) (sc_lines st)))"
      using b by (intro slice_ok) auto
    have s2: "slice (sc_lines st) 0 (sc_start st)
        = Inr (take (nat (sc_start st)) (sc_lines st))"
      using b slice_ok [of 0 "sc_start st" "sc_lines st"] by simp
    show ?thesis
      using False by (simp add: parseDocSection_def sc s1 s2)
  qed
  show ?thesis
    using sc ok m res unfolding scan_doc_def by blast
qed

text \<open>
  Claim C10. \<^verbatim>\<open>parseDocSection\<close> is total: on every document and every label it returns a
  remainder and a list of entries, and no index or slice expression is out of range. In
  the model every index and slice expression of the function has its range check, the read
  \<^verbatim>\<open>lines[i-1]\<close> at \<open>i = 0\<close> included, and a failed check is the result \<open>Inl\<close>.
\<close>

theorem parseDocSection_total:
  "\<exists>remainder errs. parseDocSection doc sec = Inr (remainder, errs)"
proof -
  obtain st :: scan_state where "parseDocSection doc sec =
          Inr (if sc_start st = -1 then (doc, [])
               else (strings_Join (take (nat (sc_start st)) (sc_lines st)),
                     entries (take (nat (sc_end st + 1) - nat (sc_start st + 1))
                                (drop (nat (sc_start st + 1)) (sc_lines st))) []))"
    using parseDocSection_scan [of doc sec] by blast
  then show ?thesis
    by (cases "sc_start st = -1") auto
qed

text \<open>The empty document, and a document whose first line is blank and whose last is the label.\<close>

theorem parseDocSection_total_witness:
  "(\<exists>remainder errs. parseDocSection [] ''errors'' = Inr (remainder, errs))
   \<and> (\<exists>remainder errs. parseDocSection ''\<newline>errors:'' ''errors'' = Inr (remainder, errs))"
  using parseDocSection_total [of "[]" "''errors''"]
    parseDocSection_total [of "''\<newline>errors:''" "''errors''"] by simp

section \<open>The example of the spec\<close>

text \<open>
  Claim C3, as amended. On the document of the example, the error annotations are the
  entries \<open>NotFound\<close> and \<open>Internal\<close>, in that order, and the remainder is the text before
  the label line, \<^verbatim>\<open>"Does X."\<close>: the lines after the section are not part of it.
\<close>

theorem error_example_remainder:
  "parseErrorDoc ''Does X.\<newline>errors:\<newline>- NotFound: no such thing\<newline>- Internal: oops\<newline>\<newline>more text''
     = Inr (''Does X.'', [\<lparr>ei_Code = ''NotFound'', ei_Doc = ''no such thing''\<rparr>,
                          \<lparr>ei_Code = ''Internal'', ei_Doc = ''oops''\<rparr>])"
  by code_simp

text \<open>Claim C3 as the spec states it: the remainder is not \<^verbatim>\<open>"Does X.\n\nmore text"\<close>.\<close>

theorem error_example_counterexample:
  "parseErrorDoc ''Does X.\<newline>errors:\<newline>- NotFound: no such thing\<newline>- Internal: oops\<newline>\<newline>more text''
     \<noteq> Inr (''Does X.\<newline>\<newline>more text'', [\<lparr>ei_Code = ''NotFound'', ei_Doc = ''no such thing''\<rparr>,
                          \<lparr>ei_Code = ''Internal'', ei_Doc = ''oops''\<rparr>])"
  by code_simp

section \<open>A terminator line in the middle of a section\<close>

text \<open>
  Claim C6 says that the section ends at the first line that is neither a list item nor an
  indented continuation, and that the lines from there on give no entry. The code sets
  \<^verbatim>\<open>end = i - 1\<close> at such a line, but its \<^verbatim>\<open>break\<close> leaves the \<^verbatim>\<open>switch\<close> only, and the next
  iteration sets \<^verbatim>\<open>end\<close> again. Here the line \<^verbatim>\<open>plain text\<close> passes the test of lines 82 to 88,
  is added to the entry \<open>A\<close>, and the line after it gives the entry \<open>B\<close>.
\<close>

theorem terminator_not_final:
  "is_terminator ''plain text''
   \<and> parseDocSection ''errors:\<newline>- A: a\<newline>plain text\<newline>- B: b'' ''errors''
       = Inr ([], [\<lparr>Key = ''A'', Doc = ''a\<newline>plain text''\<rparr>, \<lparr>Key = ''B'', Doc = ''b''\<rparr>])"
  by code_simp

section \<open>The extraction always returns\<close>

lemma parseDocSection_Inr:
  "\<exists>remainder errs. parseDocSection doc sec = Inr (remainder, errs)"
proof -
  obtain st :: scan_state where "parseDocSection doc sec =
          Inr (if sc_start st = -1 then (doc, [])
               else (strings_Join (take (nat (sc_start st)) (sc_lines st)),
                     entries (take (nat (sc_end st + 1) - nat (sc_start st + 1))
                                (drop (nat (sc_start st + 1)) (sc_lines st))) []))"
    using parseDocSection_scan [of doc sec] by blast
  then show ?thesis
    by (cases "sc_start st = -1") auto
qed

lemma parseErrorDoc_Inr: "\<exists>doc' errs. parseErrorDoc doc = Inr (doc', errs)"
  using parseDocSection_Inr [of doc ErrDocPrefix] by (auto simp: parseErrorDoc_def)

lemma parsePathDoc_Inr: "\<exists>doc' docs. parsePathDoc doc = Inr (doc', docs)"
  using parseDocSection_Inr [of doc PathDocPrefix] by (auto simp: parsePathDoc_def)

lemma addRequest_Method [simp]: "e_Method (addRequest r e) = e_Method e"
  by (simp add: addRequest_def Let_def split: option.splits list.splits prod.splits)

lemma addResponse_Method [simp]: "e_Method (addResponse r e) = e_Method e"
  by (simp add: addResponse_def Let_def split: option.splits list.splits prod.splits)

section \<open>The first declared method\<close>

text \<open>
  Claim C9. For an endpoint declaration in a file that a target claims, with at least one
  declared HTTP method, the correlation goes through and the method of the endpoint record
  is the first declared one.
\<close>

theorem first_method_wins:
  assumes "ov_get ov (ep_File r) = Some a" and "ep_HTTPMethods r = m # ms"
  shows "\<exists>st'. correlateEndpoint ov r st = (None, st') \<and> e_Method (st_heap st' a) = m"
proof -
  obtain doc1 errors where 1: "parseErrorDoc (ep_Doc r) = Inr (doc1, errors)"
    using parseErrorDoc_Inr by blast
  obtain doc2 pathDocs where 2: "parsePathDoc doc1 = Inr (doc2, pathDocs)"
    using parsePathDoc_Inr by blast
  show ?thesis
    using assms by (simp add: correlateEndpoint_def 1 2 Let_def)
qed

text \<open>An endpoint that declares GET and POST resolves to GET.\<close>

theorem first_method_wins_witness:
  "ov_get one_target (ep_File echo_endpoint) = Some 0
   \<and> ep_HTTPMethods echo_endpoint = ''GET'' # [''POST'']
   \<and> (\<exists>st'. correlateEndpoint one_target echo_endpoint start_state = (None, st')
          \<and> e_Method (st_heap st' 0) = ''GET'')"
  using first_method_wins [of one_target echo_endpoint 0 "''GET''" "[''POST'']" start_state]
  by (simp add: one_target_def echo_endpoint_def)

section \<open>Declarations in a file that no target claims\<close>

text \<open>
  Claim C8. An endpoint declaration or a struct type declaration whose file no target
  claims leaves the state of the pass as it is: no endpoint record changes and no
  diagnostic is recorded.
\<close>

theorem unclaimed_declaration_skipped:
  "(ov_get ov (ep_File r) = None \<longrightarrow> correlateEndpoint ov r st = (None, st))
   \<and> (ov_get ov (td_File td) = None \<longrightarrow> correlateDecl ov (TypeDeclaration td) st = st)"
  by (simp add: correlateEndpoint_def correlateDecl_def split: schema_Type.splits)

text \<open>The stray endpoint declares no method: the skip comes before line 184.\<close>

theorem unclaimed_declaration_skipped_witness:
  "ov_get one_target (ep_File stray_endpoint) = None
   \<and> correlateEndpoint one_target stray_endpoint start_state = (None, start_state)
   \<and> ov_get one_target (td_File stray_struct) = None
   \<and> correlateDecl one_target (TypeDeclaration stray_struct) start_state = start_state"
  using unclaimed_declaration_skipped [of one_target stray_endpoint start_state stray_struct]
  by (simp add: one_target_def stray_endpoint_def stray_struct_def echo_endpoint_def)

section \<open>The names in the types of an endpoint record\<close>

text \<open>
  Claim C4 says that the types of an endpoint record have at most one entry for a name.
  The sweep over the struct declarations checks the name before it appends (line 240);
  the response type of an endpoint is appended without that check (line 210). For an
  endpoint whose request and response are the same named type, the record holds the name
  twice.
\<close>

theorem same_request_and_response_type:
  "map ti_Name (e_Types (st_heap (snd (correlateEndpoint one_target echo_endpoint start_state)) 0))
     = [''Msg'', ''Msg'']"
proof -
  obtain doc1 errors where 1: "parseErrorDoc (ep_Doc echo_endpoint) = Inr (doc1, errors)"
    using parseErrorDoc_Inr by blast
  obtain doc2 pathDocs where 2: "parsePathDoc doc1 = Inr (doc2, pathDocs)"
    using parsePathDoc_Inr by blast
  have g: "ov_get one_target (ep_File echo_endpoint) = Some 0"
    by (simp add: one_target_def echo_endpoint_def)
  have m: "ep_HTTPMethods echo_endpoint = [''GET'', ''POST'']"
    by (simp add: echo_endpoint_def)
  have t: "e_Types (addResponse echo_endpoint (addRequest echo_endpoint (e\<lparr>e_Types := []\<rparr>)))
      = [\<lparr>ti_Name = ''Msg'', ti_Doc = strings_TrimSpace ''Msg is a message.'',
           ti_Fields = map fieldOfParameter (hd (ep_RequestEncoding echo_endpoint))\<rparr>,
         \<lparr>ti_Name = ''Msg'', ti_Doc = strings_TrimSpace ''Msg is a message.'',
           ti_Fields = map fieldOfParameter (the (ep_ResponseEncoding echo_endpoint))\<rparr>]" for e
    by (simp add: addResponse_def addRequest_def named_type_def echo_endpoint_def)
  show ?thesis
    by (simp add: correlateEndpoint_def 1 2 g m Let_def t)
qed

text \<open>The sweep over the struct declarations adds no second entry for a name.\<close>

lemma correlateDecl_distinct:
  assumes "distinct (map ti_Name (e_Types (st_heap st b)))"
  shows "distinct (map ti_Name (e_Types (st_heap (correlateDecl ov d st) b)))"
  using assms
  by (auto simp: correlateDecl_def list_ex_iff split: Decl.splits schema_Type.splits option.splits)

section \<open>The recovery boundary of \<^verbatim>\<open>parseCode\<close>\<close>

lemma correlateEndpoint_ok:
  assumes "has_method ov (EndpointResource r)"
  shows "\<exists>st'. correlateEndpoint ov r st = (None, st') \<and> st_errs st' = st_errs st"
proof (cases "ov_get ov (ep_File r)")
  case None
  then show ?thesis by (simp add: correlateEndpoint_def)
next
  case (Some a)
  with assms obtain m ms where m: "ep_HTTPMethods r = m # ms"
    by (cases "ep_HTTPMethods r") (auto simp: has_method_def)
  obtain doc1 errors where 1: "parseErrorDoc (ep_Doc r) = Inr (doc1, errors)"
    using parseErrorDoc_Inr by blast
  obtain doc2 pathDocs where 2: "parsePathDoc doc1 = Inr (doc2, pathDocs)"
    using parsePathDoc_Inr by blast
  show ?thesis
    by (simp add: correlateEndpoint_def Some m 1 2 Let_def)
qed

lemma correlateResources_ok:
  "list_all (has_method ov) rs \<Longrightarrow>
     \<exists>st'. correlateResources ov rs st = (None, st') \<and> st_errs st' = st_errs st"
proof (induction rs arbitrary: st)
  case Nil
  then show ?case by simp
next
  case (Cons res rs)
  show ?case
  proof (cases res)
    case OtherResource
    with Cons show ?thesis by simp
  next
    case (EndpointResource r)
    with Cons.prems obtain st1 where 1: "correlateEndpoint ov r st = (None, st1)"
      and e: "st_errs st1 = st_errs st"
      using correlateEndpoint_ok [of ov r st] by auto
    from Cons.prems Cons.IH [of st1] obtain st' where
      "correlateResources ov rs st1 = (None, st')" "st_errs st' = st_errs st1"
      by auto
    with 1 e EndpointResource show ?thesis by simp
  qed
qed

lemma correlateDecl_errs [simp]: "st_errs (correlateDecl ov d st) = st_errs st"
  by (simp add: correlateDecl_def split: Decl.splits schema_Type.splits option.splits)

lemma correlateDecls_errs [simp]: "st_errs (correlateDecls ov ds st) = st_errs st"
  by (induction ds arbitrary: st) simp_all

lemma loadPkgs_result:
  "\<exists>st'. loadPkgs loads st = (if aborted loads then Some Bailout else None, st')
      \<and> st_errs st' = st_errs st @ diags_of loads"
proof (induction loads arbitrary: st)
  case Nil
  then show ?case by simp
next
  case (Cons c cs)
  show ?case
  proof (cases c)
    case (Aborts ds)
    then show ?thesis by simp
  next
    case (Yields ds u)
    with Cons [of "st\<lparr>st_errs := st_errs st @ ds\<rparr>"] show ?thesis by auto
  qed
qed

lemma runPasses_result:
  "methods_ok ov passes \<Longrightarrow>
     \<exists>st'. runPasses ov passes st = (if aborted passes then Some Bailout else None, st')
      \<and> st_errs st' = st_errs st @ diags_of passes"
proof (induction passes arbitrary: st)
  case Nil
  then show ?case by simp
next
  case (Cons c cs)
  show ?case
  proof (cases c)
    case (Aborts ds)
    then show ?thesis by simp
  next
    case (Yields ds x)
    obtain rs decls where x: "x = (rs, decls)" by (cases x)
    from Cons.prems Yields x have rs: "list_all (has_method ov) rs" and ok: "methods_ok ov cs"
      by simp_all
    obtain st1 where 1: "correlateResources ov rs (st\<lparr>st_errs := st_errs st @ ds\<rparr>) = (None, st1)"
      and e: "st_errs st1 = st_errs st @ ds"
      using correlateResources_ok [OF rs, of "st\<lparr>st_errs := st_errs st @ ds\<rparr>"] by auto
    from Cons.IH [OF ok, of "correlateDecls ov decls st1"] obtain st' where
      "runPasses ov cs (correlateDecls ov decls st1)
         = (if aborted cs then Some Bailout else None, st')"
      "st_errs st' = st_errs (correlateDecls ov decls st1) @ diags_of cs"
      by blast
    with 1 e Yields x show ?thesis by simp
  qed
qed

lemma deferred_caught:
  "p = None \<or> p = Some Bailout \<Longrightarrow> rtn = None \<or> rtn = Some \<lparr>Services = services, Errors = []\<rparr> \<Longrightarrow>
     deferred ov services errs p rtn
       = Returns (Some \<lparr>Services = services, Errors = ov_validationErrors ov errs\<rparr>) None"
  by (auto simp: deferred_def CatchBailout_def)

text \<open>
  Claim C5, as amended. When \<^verbatim>\<open>newOverlays\<close> fails, \<^verbatim>\<open>parseCode\<close> returns the error and no
  result (lines 127 to 129, before the deferred function is set up). When it succeeds and
  every endpoint declaration that is correlated declares a method, the caller receives a
  result whose errors are the validation errors of the diagnostics accumulated so far,
  and no panic reaches the caller, whether or not the parsing collaborator bails out.
\<close>

theorem parseCode_returns:
  "(\<exists>h'. parseCode (Inl err) services loads passes h = (Returns None (Some err), h'))
   \<and> (methods_ok ov passes \<longrightarrow>
        (\<exists>h'. parseCode (Inr ov) services loads passes h
           = (Returns (Some \<lparr>Services = services,
                 Errors = ov_validationErrors ov (accumulated loads passes)\<rparr>) None, h')))"
proof (intro conjI impI)
  show "\<exists>h'. parseCode (Inl err) services loads passes h = (Returns None (Some err), h')"
    by (simp add: parseCode_def)
next
  assume ok: "methods_ok ov passes"
  obtain st1 where l: "loadPkgs loads \<lparr>st_heap = h, st_errs = []\<rparr>
        = (if aborted loads then Some Bailout else None, st1)"
    and e1: "st_errs st1 = diags_of loads"
    using loadPkgs_result [of loads "\<lparr>st_heap = h, st_errs = []\<rparr>"] by auto
  show "\<exists>h'. parseCode (Inr ov) services loads passes h
           = (Returns (Some \<lparr>Services = services,
                 Errors = ov_validationErrors ov (accumulated loads passes)\<rparr>) None, h')"
  proof (cases "aborted loads")
    case True
    then show ?thesis
      using l e1 by (simp add: parseCode_def accumulated_def deferred_caught)
  next
    case False
    obtain st2 where r: "runPasses ov passes st1
        = (if aborted passes then Some Bailout else None, st2)"
      and e2: "st_errs st2 = st_errs st1 @ diags_of passes"
      using runPasses_result [OF ok, of st1] by auto
    show ?thesis
      using False l e1 r e2
      by (cases "aborted passes") (simp_all add: parseCode_def accumulated_def deferred_caught)
  qed
qed

text \<open>
  A failing \<^verbatim>\<open>newOverlays\<close>; and a run in which the first package is correlated and the pass
  over the second one bails out.
\<close>

theorem parseCode_returns_witness:
  "(\<exists>h'. parseCode (Inl ''no module'') [''svc''] [] [] (\<lambda>a. empty_endpoint)
        = (Returns None (Some ''no module''), h'))
   \<and> methods_ok one_target
        [Yields [''a.go: unused import''] ([EndpointResource echo_endpoint], []),
         Aborts [''b.go: syntax error'']]
   \<and> (\<exists>h'. parseCode (Inr one_target) [''svc''] [Yields [] ()]
          [Yields [''a.go: unused import''] ([EndpointResource echo_endpoint], []),
           Aborts [''b.go: syntax error'']] (\<lambda>a. empty_endpoint)
        = (Returns (Some \<lparr>Services = [''svc''],
              Errors = [''a.go: unused import'', ''b.go: syntax error'']\<rparr>) None, h'))"
  using parseCode_returns [of "''no module''" "[''svc'']" "[]" "[]" "\<lambda>a. empty_endpoint" one_target]
    parseCode_returns [of "''no module''" "[''svc'']" "[Yields [] ()]"
       "[Yields [''a.go: unused import''] ([EndpointResource echo_endpoint], []),
         Aborts [''b.go: syntax error'']]" "\<lambda>a. empty_endpoint" one_target]
  by (simp add: has_method_def one_target_def echo_endpoint_def accumulated_def)

text \<open>
  Claim C5 as the spec states it, for every run: when \<^verbatim>\<open>newOverlays\<close> fails the caller
  receives no result.
\<close>

theorem parseCode_no_result_counterexample:
  "\<not> (\<exists>res err. fst (parseCode (Inl ''no module'') [''svc''] [] [] (\<lambda>a. empty_endpoint))
          = Returns (Some res) err)"
  by (simp add: parseCode_def)

section \<open>The remainder of an extraction\<close>

lemma take_scanned_lines:
  assumes "k \<le> m"
  shows "take k (scanned_lines sec ls m) = scanned_lines sec ls k"
proof (cases "k \<le> first_label sec ls")
  case True
  then show ?thesis
    using assms first_label_le [of sec ls] by (simp add: scanned_lines_def min_def take_map)
next
  case False
  then show ?thesis
    using assms first_label_le [of sec ls]
    by (simp add: scanned_lines_def min_def take_map min_absorb2)
qed

lemma no_label_first_label:
  assumes "\<not> list_ex (is_label sec) ls"
  shows "first_label sec ls = length ls"
proof -
  have "takeWhile (\<lambda>l. \<not> is_label sec l) ls = ls"
    using assms by (simp add: list_ex_iff)
  then have "length (takeWhile (\<lambda>l. \<not> is_label sec l) ls) = length ls"
    by (rule arg_cong)
  then show ?thesis by (simp only: first_label_def)
qed

lemma label_first_label:
  assumes "list_ex (is_label sec) ls"
  shows "first_label sec ls < length ls"
proof -
  have "takeWhile (\<lambda>l. \<not> is_label sec l) ls \<noteq> ls"
    using assms by (simp add: list_ex_iff)
  then have "length (takeWhile (\<lambda>l. \<not> is_label sec l) ls) \<noteq> length ls"
    by (metis takeWhile_eq_take take_all order_refl)
  then show ?thesis
    using length_takeWhile_le [of "\<lambda>l. \<not> is_label sec l" ls] by (simp add: first_label_def)
qed

text \<open>
  Claim C1, as amended. When no line is a label line, the input comes back unchanged with
  no entry. When the label is found, the remainder is the lines before a label line \<open>k\<close>,
  joined with line breaks: the lines before the first label line as they were, the lines from
  there up to \<open>k\<close> (other label lines that the loop met before) trimmed. The lines of the
  section and the lines after it are not part of the remainder. With one label line in
  the text, \<open>k\<close> is that line and the remainder is the text before it.
\<close>

theorem remainder_before_label:
  "(\<not> list_ex (is_label sec) (strings_Split doc) \<longrightarrow> parseDocSection doc sec = Inr (doc, []))
   \<and> (list_ex (is_label sec) (strings_Split doc) \<longrightarrow>
        (\<exists>k errs. first_label sec (strings_Split doc) \<le> k \<and> k < length (strings_Split doc)
           \<and> is_label sec (strings_Split doc ! k)
           \<and> parseDocSection doc sec
               = Inr (strings_Join (scanned_lines sec (strings_Split doc) k), errs)))"
proof -
  obtain st :: scan_state and m where ok: "scan_ok sec (strings_Split doc) m st"
    and m: "sc_start st = -1 \<longrightarrow> m = length (strings_Split doc)"
    and res: "parseDocSection doc sec =
          Inr (if sc_start st = -1 then (doc, [])
               else (strings_Join (take (nat (sc_start st)) (sc_lines st)),
                     entries (take (nat (sc_end st + 1) - nat (sc_start st + 1))
                                (drop (nat (sc_start st + 1)) (sc_lines st))) []))"
    using parseDocSection_scan [of doc sec] by blast
  show ?thesis
  proof (cases "list_ex (is_label sec) (strings_Split doc)")
    case False
    have "sc_start st = -1"
    proof (rule ccontr)
      assume "sc_start st \<noteq> -1"
      with ok have "int (first_label sec (strings_Split doc)) \<le> sc_start st"
          "sc_start st \<le> sc_end st" "sc_end st < int m" "m \<le> length (strings_Split doc)"
        by (simp_all add: scan_ok_def)
      then show False using no_label_first_label [OF False] by simp
    qed
    with res False show ?thesis by simp
  next
    case True
    have ne: "sc_start st \<noteq> -1"
    proof
      assume s: "sc_start st = -1"
      with ok m have "length (strings_Split doc) \<le> first_label sec (strings_Split doc)"
        by (simp add: scan_ok_def)
      then show False using label_first_label [OF True] by simp
    qed
    define k where "k = nat (sc_start st)"
    from ok ne have b: "int (first_label sec (strings_Split doc)) \<le> sc_start st"
        "sc_start st \<le> sc_end st" "sc_end st < int m" "m \<le> length (strings_Split doc)"
        "is_label sec (strings_Split doc ! nat (sc_start st))"
        "take m (sc_lines st) = scanned_lines sec (strings_Split doc) m"
      by (simp_all add: scan_ok_def)
    have km: "k \<le> m" using b by (simp add: k_def)
    have "take k (sc_lines st) = take k (take m (sc_lines st))"
      using km by (simp add: min_absorb1)
    also have "\<dots> = scanned_lines sec (strings_Split doc) k"
      using b(6) km by (simp add: take_scanned_lines)
    finally have "parseDocSection doc sec
        = Inr (strings_Join (scanned_lines sec (strings_Split doc) k),
               entries (take (nat (sc_end st + 1) - nat (sc_start st + 1))
                                (drop (nat (sc_start st + 1)) (sc_lines st))) [])"
      using res ne by (simp add: k_def)
    moreover have "first_label sec (strings_Split doc) \<le> k" "k < length (strings_Split doc)"
        "is_label sec (strings_Split doc ! k)"
      using b by (simp_all add: k_def)
    ultimately show ?thesis using True by blast
  qed
qed

text \<open>A text without the label, and a text with a section and a line after it.\<close>

theorem remainder_before_label_witness:
  "\<not> list_ex (is_label ''errors'') (strings_Split ''no section here'')
   \<and> parseDocSection ''no section here'' ''errors'' = Inr (''no section here'', [])
   \<and> list_ex (is_label ''errors'') (strings_Split ''a\<newline>errors:\<newline>- K: v\<newline>\<newline>\<newline>after'')
   \<and> (\<exists>k errs. first_label ''errors'' (strings_Split ''a\<newline>errors:\<newline>- K: v\<newline>\<newline>\<newline>after'') \<le> k
         \<and> k < length (strings_Split ''a\<newline>errors:\<newline>- K: v\<newline>\<newline>\<newline>after'')
         \<and> is_label ''errors'' (strings_Split ''a\<newline>errors:\<newline>- K: v\<newline>\<newline>\<newline>after'' ! k)
         \<and> parseDocSection ''a\<newline>errors:\<newline>- K: v\<newline>\<newline>\<newline>after'' ''errors''
               = Inr (strings_Join (scanned_lines ''errors''
                        (strings_Split ''a\<newline>errors:\<newline>- K: v\<newline>\<newline>\<newline>after'') k), errs))"
proof -
  have 1: "\<not> list_ex (is_label ''errors'') (strings_Split ''no section here'')"
    by code_simp
  have 2: "list_ex (is_label ''errors'') (strings_Split ''a\<newline>errors:\<newline>- K: v\<newline>\<newline>\<newline>after'')"
    by code_simp
  show ?thesis
    using 1 2 remainder_before_label [of "''errors''" "''no section here''"]
      remainder_before_label [of "''errors''" "''a\<newline>errors:\<newline>- K: v\<newline>\<newline>\<newline>after''"]
    by blast
qed

text \<open>
  Claim C1 as the spec states it: the remainder would keep the line after the section;
  the code returns the text before the label line only.
\<close>

theorem remainder_counterexample:
  "remainder_of ''a\<newline>errors:\<newline>- K: v\<newline>\<newline>\<newline>after'' ''errors'' = ''a''
   \<and> spec_remainder ''a\<newline>errors:\<newline>- K: v\<newline>\<newline>\<newline>after'' ''errors'' = ''a\<newline>after''
   \<and> remainder_of ''a\<newline>errors:\<newline>- K: v\<newline>\<newline>\<newline>after'' ''errors''
       \<noteq> spec_remainder ''a\<newline>errors:\<newline>- K: v\<newline>\<newline>\<newline>after'' ''errors''"
  by code_simp

section \<open>Two consecutive empty lines\<close>

lemma scan_Cons:
  "scan sec i (line # rest) st =
     (case scan_body sec i line st of Inl r \<Rightarrow> r | Inr st' \<Rightarrow> scan sec (Suc i) rest st')"
  by (simp add: scan_body_def Let_def)

lemma is_terminator_Nil [simp]: "\<not> is_terminator []"
  by (simp add: is_terminator_def)

lemma agree_update:
  "agree n s t \<Longrightarrow>
     agree n (s\<lparr>sc_lines := (sc_lines s)[i := v]\<rparr>) (t\<lparr>sc_lines := (sc_lines t)[i := v]\<rparr>)"
  by (simp add: agree_def take_update_swap)

lemma agree_nth: "agree n s t \<Longrightarrow> j < n \<Longrightarrow> sc_lines s ! j = sc_lines t ! j"
  unfolding agree_def by (metis nth_take)

text \<open>One iteration on two states that agree.\<close>

lemma scan_body_agree:
  assumes a: "agree n s t" and i: "i < n"
  shows "(\<exists>p. scan_body sec i line s = Inl (Inl p) \<and> scan_body sec i line t = Inl (Inl p))
     \<or> (\<exists>s' t'. scan_body sec i line s = Inl (Inr s') \<and> scan_body sec i line t = Inl (Inr t')
           \<and> agree n s' t' \<and> sc_start s' \<noteq> -1 \<and> sc_end s' \<le> int i)
     \<or> (\<exists>s' t'. scan_body sec i line s = Inr s' \<and> scan_body sec i line t = Inr t'
           \<and> agree n s' t' \<and> (sc_start s \<noteq> -1 \<or> is_label sec line \<longrightarrow> sc_start s' \<noteq> -1))"
proof (cases "\<not> is_label sec line \<and> sc_start s = -1")
  case True
  then show ?thesis using a by (simp add: scan_body_def agree_def)
next
  case False
  define s2 where "s2 = (if is_label sec line then s\<lparr>sc_end := int i, sc_start := int i\<rparr>
                   else if is_terminator line then s\<lparr>sc_end := int i - 1\<rparr>
                   else s\<lparr>sc_end := int i\<rparr>)"
  define t2 where "t2 = (if is_label sec line then t\<lparr>sc_end := int i, sc_start := int i\<rparr>
                   else if is_terminator line then t\<lparr>sc_end := int i - 1\<rparr>
                   else t\<lparr>sc_end := int i\<rparr>)"
  define s3 where "s3 = s2\<lparr>sc_lines := (sc_lines s2)[i := strings_TrimSpace line]\<rparr>"
  define t3 where "t3 = t2\<lparr>sc_lines := (sc_lines t2)[i := strings_TrimSpace line]\<rparr>"
  have a2: "agree n s2 t2"
    using a by (simp add: s2_def t2_def agree_def)
  have a3: "agree n s3 t3"
    unfolding s3_def t3_def using a2 by (rule agree_update)
  have st: "sc_start s3 \<noteq> -1" and en: "sc_end s3 \<le> int i"
    using False by (auto simp: s3_def s2_def)
  have ls: "\<not> length (sc_lines s2) \<le> i" and lt: "\<not> length (sc_lines t2) \<le> i"
    using a2 i by (simp_all add: agree_def)
  have same: "sc_start t = sc_start s"
    using a by (simp add: agree_def)
  have bs: "scan_body sec i line s =
      (if line = [] then
         (if i = 0 then Inl (Inl IndexOutOfRange)
          else if sc_lines s3 ! (i - 1) = [] then Inl (Inr s3) else Inr s3)
       else Inr s3)"
    using False ls by (auto simp: scan_body_def Let_def s2_def s3_def)
  have bt: "scan_body sec i line t =
      (if line = [] then
         (if i = 0 then Inl (Inl IndexOutOfRange)
          else if sc_lines t3 ! (i - 1) = [] then Inl (Inr t3) else Inr t3)
       else Inr t3)"
    using False lt same by (auto simp: scan_body_def Let_def t2_def t3_def)
  have nth: "sc_lines s3 ! (i - 1) = sc_lines t3 ! (i - 1)"
    using agree_nth [OF a3, of "i - 1"] i by simp
  show ?thesis
    unfolding bs bt using a3 st en nth by auto
qed

lemma scan_body_blank:
  assumes "sc_start s \<noteq> -1" and "i < length (sc_lines s)"
  shows "scan_body sec i [] s =
     (if i = 0 then Inl (Inl IndexOutOfRange)
      else if (sc_lines s)[i := []] ! (i - 1) = []
        then Inl (Inr (s\<lparr>sc_end := int i, sc_lines := (sc_lines s)[i := []]\<rparr>))
        else Inr (s\<lparr>sc_end := int i, sc_lines := (sc_lines s)[i := []]\<rparr>))"
  using assms by (simp add: scan_body_def Let_def)

lemma agree_blank:
  "agree n s t \<Longrightarrow>
     agree n (s\<lparr>sc_end := e, sc_lines := (sc_lines s)[i := v]\<rparr>)
             (t\<lparr>sc_end := e, sc_lines := (sc_lines t)[i := v]\<rparr>)"
  by (simp add: agree_def take_update_swap)

text \<open>Two empty lines after the label line end the loop, whatever follows them.\<close>

lemma scan_two_blank_Nil:
  assumes st: "sc_start s \<noteq> -1" and a: "agree (i + 2) s t"
  shows "results_agree (i + 2) (scan sec i ([] # [] # ys) s) (scan sec i ([] # [] # zs) t)"
proof -
  define s3 where "s3 = s\<lparr>sc_end := int i, sc_lines := (sc_lines s)[i := []]\<rparr>"
  define t3 where "t3 = t\<lparr>sc_end := int i, sc_lines := (sc_lines t)[i := []]\<rparr>"
  define s4 where "s4 = s3\<lparr>sc_end := int (Suc i), sc_lines := (sc_lines s3)[Suc i := []]\<rparr>"
  define t4 where "t4 = t3\<lparr>sc_end := int (Suc i), sc_lines := (sc_lines t3)[Suc i := []]\<rparr>"
  have tt: "sc_start t \<noteq> -1"
    using st a by (simp add: agree_def)
  have len: "i + 2 \<le> length (sc_lines s)" "i + 2 \<le> length (sc_lines t)"
    using a by (simp_all add: agree_def)
  have a3: "agree (i + 2) s3 t3"
    unfolding s3_def t3_def using a by (rule agree_blank)
  have a4: "agree (i + 2) s4 t4"
    unfolding s4_def t4_def using a3 by (rule agree_blank)
  have nth: "sc_lines s3 ! (i - 1) = sc_lines t3 ! (i - 1)"
    using agree_nth [OF a3, of "i - 1"] by simp
  have b1: "scan_body sec i [] s =
     (if i = 0 then Inl (Inl IndexOutOfRange)
      else if sc_lines s3 ! (i - 1) = [] then Inl (Inr s3) else Inr s3)"
    using scan_body_blank [OF st, of i sec] len by (simp add: s3_def)
  have b2: "scan_body sec i [] t =
     (if i = 0 then Inl (Inl IndexOutOfRange)
      else if sc_lines t3 ! (i - 1) = [] then Inl (Inr t3) else Inr t3)"
    using scan_body_blank [OF tt, of i sec] len by (simp add: t3_def)
  have c1: "scan_body sec (Suc i) [] s3 = Inl (Inr s4)"
    using scan_body_blank [of s3 "Suc i" sec] st len by (simp add: s3_def s4_def)
  have c2: "scan_body sec (Suc i) [] t3 = Inl (Inr t4)"
    using scan_body_blank [of t3 "Suc i" sec] tt len by (simp add: t3_def t4_def)
  have e3: "sc_start s3 \<noteq> -1" "sc_end s3 < int (i + 2)"
    using st by (simp_all add: s3_def)
  have e4: "sc_start s4 \<noteq> -1" "sc_end s4 < int (i + 2)"
    using st by (simp_all add: s4_def s3_def)
  show ?thesis
    using a3 a4 e3 e4 nth
    by (simp add: scan_Cons b1 b2 c1 c2 results_agree_def del: scan.simps)
qed

lemma scan_two_blank:
  assumes "sc_start s \<noteq> -1 \<or> list_ex (is_label sec) xs"
    and "agree (i + length xs + 2) s t"
  shows "results_agree (i + length xs + 2)
           (scan sec i (xs @ [] # [] # ys) s) (scan sec i (xs @ [] # [] # zs) t)"
  using assms
proof (induction xs arbitrary: i s t)
  case Nil
  then show ?case using scan_two_blank_Nil [of s i t sec ys zs] by simp
next
  case (Cons x xs)
  let ?n = "i + length (x # xs) + 2"
  have n: "?n = Suc i + length xs + 2" by simp
  have i: "i < ?n" by simp
  from scan_body_agree [OF Cons.prems(2) i, of sec x]
  consider (panic) p where "scan_body sec i x s = Inl (Inl p)" "scan_body sec i x t = Inl (Inl p)"
    | (stop) s' t' where "scan_body sec i x s = Inl (Inr s')" "scan_body sec i x t = Inl (Inr t')"
        "agree ?n s' t'" "sc_start s' \<noteq> -1" "sc_end s' \<le> int i"
    | (go) s' t' where "scan_body sec i x s = Inr s'" "scan_body sec i x t = Inr t'"
        "agree ?n s' t'" "sc_start s \<noteq> -1 \<or> is_label sec x \<longrightarrow> sc_start s' \<noteq> -1"
    by blast
  then show ?case
  proof cases
    case panic
    then show ?thesis
      by (simp add: scan_Cons results_agree_def del: scan.simps)
  next
    case stop
    then show ?thesis
      by (simp add: scan_Cons results_agree_def del: scan.simps)
  next
    case go
    from Cons.prems(1) go(4) have "sc_start s' \<noteq> -1 \<or> list_ex (is_label sec) xs"
      by auto
    from Cons.IH [OF this, of "Suc i" t'] go(3)
    have "results_agree (Suc i + length xs + 2)
           (scan sec (Suc i) (xs @ [] # [] # ys) s') (scan sec (Suc i) (xs @ [] # [] # zs) t')"
      by (simp only: n)
    then show ?thesis
      using go(1,2) by (simp add: scan_Cons del: scan.simps)
  qed
qed

lemma strings_Split_not_Nil [simp]: "strings_Split s \<noteq> []"
  by (induction s) (auto split: list.splits)

lemma strings_Split_newline:
  "strings_Split (p @ CHR 0x0A # r) = strings_Split p @ strings_Split r"
  by (induction p) (auto split: list.splits)

lemma take_drop_agree:
  assumes "take n xs = take n ys" and "a + b \<le> n"
  shows "take a (drop b xs) = take a (drop b ys)"
proof -
  have "take a (drop b zs) = take a (drop b (take n zs))" for zs :: "'a list"
    using assms(2) by (simp add: drop_take min_absorb1)
  then show ?thesis using assms(1) by metis
qed

lemma slice_agree:
  assumes "take n xs = take n ys" and "n \<le> length xs" and "n \<le> length ys" and "hi \<le> int n"
  shows "slice xs lo hi = slice ys lo hi"
proof (cases "0 \<le> lo \<and> lo \<le> hi")
  case True
  then have "nat hi - nat lo + nat lo \<le> n"
    using assms(4) by linarith
  from take_drop_agree [OF assms(1) this] True assms show ?thesis
    by (simp add: slice_def)
next
  case False
  then show ?thesis by (auto simp: slice_def)
qed

text \<open>The part of \<^verbatim>\<open>parseDocSection\<close> after the first loop, on results that agree.\<close>

lemma after_scan_agree:
  assumes "results_agree n r r'"
  shows "(case r of
            Inl p \<Rightarrow> Inl p
          | Inr st \<Rightarrow>
              if sc_start st = -1 then Inr (d, [])
              else
                (case slice (sc_lines st) (sc_start st + 1) (sc_end st + 1) of
                   Inl p \<Rightarrow> Inl p
                 | Inr body \<Rightarrow>
                     (case slice (sc_lines st) 0 (sc_start st) of
                        Inl p \<Rightarrow> Inl p
                      | Inr head \<Rightarrow> Inr (strings_Join head, entries body []))))
       = (case r' of
            Inl p \<Rightarrow> Inl p
          | Inr st \<Rightarrow>
              if sc_start st = -1 then Inr (d', [])
              else
                (case slice (sc_lines st) (sc_start st + 1) (sc_end st + 1) of
                   Inl p \<Rightarrow> Inl p
                 | Inr body \<Rightarrow>
                     (case slice (sc_lines st) 0 (sc_start st) of
                        Inl p \<Rightarrow> Inl p
                      | Inr head \<Rightarrow> Inr (strings_Join head, entries body []))))"
proof (cases r)
  case (Inl p)
  with assms show ?thesis by (simp add: results_agree_def)
next
  case (Inr s)
  with assms obtain t where t: "r' = Inr t" and a: "agree n s t"
    and st: "sc_start s \<noteq> -1" and en: "sc_end s < int n"
    by (cases r') (auto simp: results_agree_def)
  from a have eq: "sc_start t = sc_start s" "sc_end t = sc_end s"
    and tk: "take n (sc_lines s) = take n (sc_lines t)"
    and len: "n \<le> length (sc_lines s)" "n \<le> length (sc_lines t)"
    by (simp_all add: agree_def)
  have 1: "slice (sc_lines s) (sc_start s + 1) (sc_end s + 1)
      = slice (sc_lines t) (sc_start s + 1) (sc_end s + 1)"
    using slice_agree [OF tk len, of "sc_end s + 1"] en by simp
  show ?thesis
  proof (cases "sc_start s \<le> sc_end s")
    case True
    with en have "sc_start s \<le> int n" by simp
    then have 2: "slice (sc_lines s) 0 (sc_start s) = slice (sc_lines t) 0 (sc_start s)"
      using slice_agree [OF tk len] by simp
    show ?thesis
      using st by (simp add: Inr t eq 1 2 cong: sum.case_cong)
  next
    case False
    then have f: "slice (sc_lines t) (sc_start s + 1) (sc_end s + 1) = Inl IndexOutOfRange"
      by (simp add: slice_def)
    show ?thesis
      using st by (simp add: Inr t eq 1 f cong: sum.case_cong)
  qed
qed

lemma strings_Split_three_newlines:
  "strings_Split (p @ ''\<newline>\<newline>\<newline>'' @ q) = strings_Split p @ [] # [] # strings_Split q"
  using strings_Split_newline [of p "''\<newline>\<newline>'' @ q"] strings_Split_newline [of "[]" "CHR 0x0A # q"]
    strings_Split_newline [of "[]" q] by simp

text \<open>
  Claim C7, as amended. For a text \<open>p\<close> with a label line, followed by two consecutive empty
  lines and then by any content \<open>q\<close>, the extraction does not depend on \<open>q\<close>: the content
  after the second empty line is in no entry, and it is not in the remainder either.
\<close>

theorem after_two_blank_lines:
  assumes "list_ex (is_label sec) (strings_Split p)"
  shows "parseDocSection (p @ ''\<newline>\<newline>\<newline>'' @ q) sec = parseDocSection (p @ ''\<newline>\<newline>\<newline>'') sec"
proof -
  let ?n = "0 + length (strings_Split p) + 2"
  have l1: "strings_Split (p @ ''\<newline>\<newline>\<newline>'' @ q) = strings_Split p @ [] # [] # strings_Split q"
    by (rule strings_Split_three_newlines)
  have l2: "strings_Split (p @ ''\<newline>\<newline>\<newline>'') = strings_Split p @ [] # [] # strings_Split []"
    using strings_Split_three_newlines [of p "[]"] by simp
  have "agree ?n \<lparr>sc_start = -1, sc_end = -1, sc_lines = strings_Split p @ [] # [] # strings_Split q\<rparr>
      \<lparr>sc_start = -1, sc_end = -1, sc_lines = strings_Split p @ [] # [] # strings_Split []\<rparr>"
    by (simp add: agree_def)
  from scan_two_blank [OF disjI2 [OF assms] this, of "strings_Split q" "strings_Split []"]
  have "results_agree ?n
      (scan sec 0 (strings_Split (p @ ''\<newline>\<newline>\<newline>'' @ q))
         \<lparr>sc_start = -1, sc_end = -1, sc_lines = strings_Split (p @ ''\<newline>\<newline>\<newline>'' @ q)\<rparr>)
      (scan sec 0 (strings_Split (p @ ''\<newline>\<newline>\<newline>''))
         \<lparr>sc_start = -1, sc_end = -1, sc_lines = strings_Split (p @ ''\<newline>\<newline>\<newline>'')\<rparr>)"
    by (simp only: l1 l2)
  from after_scan_agree [OF this] show ?thesis
    unfolding parseDocSection_def Let_def .
qed

text \<open>A section, two empty lines and a closing sentence.\<close>

theorem after_two_blank_lines_witness:
  "list_ex (is_label ''errors'') (strings_Split ''Get a thing.\<newline>errors:\<newline>- NotFound: none'')
   \<and> parseDocSection (''Get a thing.\<newline>errors:\<newline>- NotFound: none'' @ ''\<newline>\<newline>\<newline>'' @ ''See also: the list call.'') ''errors''
       = parseDocSection (''Get a thing.\<newline>errors:\<newline>- NotFound: none'' @ ''\<newline>\<newline>\<newline>'') ''errors''"
proof -
  have 1: "list_ex (is_label ''errors'') (strings_Split ''Get a thing.\<newline>errors:\<newline>- NotFound: none'')"
    by code_simp
  show ?thesis
    using 1 after_two_blank_lines [OF 1, of "''See also: the list call.''"] by blast
qed

text \<open>
  Claim C7 as the spec states it: the content after the second empty line would be
  preserved exactly in the remainder. It is a line of the text and no line of the remainder.
\<close>

theorem after_two_blank_lines_counterexample:
  "''See also: the list call.''
      \<in> set (strings_Split ''Get a thing.\<newline>errors:\<newline>- NotFound: none\<newline>\<newline>\<newline>See also: the list call.'')
   \<and> ''See also: the list call.''
      \<notin> set (strings_Split (remainder_of
            ''Get a thing.\<newline>errors:\<newline>- NotFound: none\<newline>\<newline>\<newline>See also: the list call.'' ''errors''))
   \<and> remainder_of ''Get a thing.\<newline>errors:\<newline>- NotFound: none\<newline>\<newline>\<newline>See also: the list call.'' ''errors''
       = ''Get a thing.''"
  by code_simp

section \<open>Trimming, splitting and joining\<close>

lemma space_width_0_iff:
  assumes "\<forall>q\<in>set runes. q \<noteq> []"
  shows "space_width runes s = 0 \<longleftrightarrow> (\<forall>q\<in>set runes. \<not> strings_HasPrefix s q)"
proof (cases "find (strings_HasPrefix s) runes")
  case None
  then have "\<forall>q\<in>set runes. \<not> strings_HasPrefix s q"
    by (simp add: find_None_iff)
  with None show ?thesis by (simp add: space_width_def)
next
  case (Some q)
  then have "q \<in> set runes" "strings_HasPrefix s q"
    by (auto simp: find_Some_iff)
  with assms Some show ?thesis by (auto simp: space_width_def)
qed

lemma trim_front_width: "space_width runes (trim_front runes s) = 0"
  by (induction runes s rule: trim_front.induct) (simp add: trim_front.simps)

lemma trim_front_fixed: "space_width runes s = 0 \<Longrightarrow> trim_front runes s = s"
  by (simp add: trim_front.simps)

lemma trim_front_drop: "\<exists>k. trim_front runes s = drop k s"
proof (induction runes s rule: trim_front.induct)
  case (1 runes s)
  show ?case
  proof (cases "space_width runes s = 0")
    case True
    then have "trim_front runes s = drop 0 s" by (simp add: trim_front.simps)
    then show ?thesis by blast
  next
    case False
    with 1 obtain k where "trim_front runes (drop (space_width runes s) s)
        = drop k (drop (space_width runes s) s)"
      by blast
    with False have "trim_front runes s = drop (k + space_width runes s) s"
      by (simp add: trim_front.simps [of runes s])
    then show ?thesis by blast
  qed
qed

lemma HasPrefix_take:
  "strings_HasPrefix (take j t) q \<Longrightarrow> strings_HasPrefix t q"
  by (auto simp: strings_HasPrefix_def min_def split: if_splits)

lemma space_runes_not_Nil: "\<forall>q\<in>set space_runes. q \<noteq> []"
  by (simp add: space_runes_def)

lemma TrimRight_take: "\<exists>j. TrimRight t = take j t"
proof -
  obtain k where "trim_front (map rev space_runes) (rev t) = drop k (rev t)"
    using trim_front_drop by blast
  then have "TrimRight t = take (length t - k) t"
    by (simp add: TrimRight_def rev_drop)
  then show ?thesis by blast
qed

lemma TrimLeft_drop: "\<exists>k. TrimLeft s = drop k s"
  unfolding TrimLeft_def by (rule trim_front_drop)

lemma TrimSpace_idem [simp]: "strings_TrimSpace (strings_TrimSpace s) = strings_TrimSpace s"
proof -
  define t where "t = TrimLeft s"
  define u where "u = TrimRight t"
  have wt: "space_width space_runes t = 0"
    unfolding t_def TrimLeft_def by (rule trim_front_width)
  obtain j where j: "u = take j t"
    unfolding u_def using TrimRight_take by blast
  have "space_width space_runes u = 0"
    using wt HasPrefix_take [of j t] unfolding j
    by (auto simp: space_width_0_iff [OF space_runes_not_Nil])
  then have 1: "TrimLeft u = u"
    by (simp add: TrimLeft_def trim_front_fixed)
  have "space_width (map rev space_runes) (rev u) = 0"
    unfolding u_def TrimRight_def by (simp add: trim_front_width)
  then have 2: "TrimRight u = u"
    by (simp add: TrimRight_def trim_front_fixed)
  show ?thesis
    using 1 2 by (simp add: strings_TrimSpace_def t_def [symmetric] u_def [symmetric])
qed

lemma set_TrimSpace: "set (strings_TrimSpace s) \<subseteq> set s"
proof -
  obtain k where k: "TrimLeft s = drop k s" using TrimLeft_drop by blast
  obtain j where j: "TrimRight (TrimLeft s) = take j (TrimLeft s)" using TrimRight_take by blast
  have "set (take j (drop k s)) \<subseteq> set s"
    by (meson set_take_subset set_drop_subset subset_trans)
  then show ?thesis
    unfolding strings_TrimSpace_def j unfolding k .
qed

lemma strings_Split_no_newline:
  "CHR 0x0A \<notin> set s \<Longrightarrow> strings_Split s = [s]"
  by (induction s) auto

lemma strings_Split_lines: "l \<in> set (strings_Split s) \<Longrightarrow> CHR 0x0A \<notin> set l"
proof (induction s arbitrary: l)
  case Nil
  then show ?case by simp
next
  case (Cons c cs)
  then show ?case
    by (cases "strings_Split cs") (auto split: if_splits)
qed

lemma strings_Split_Join:
  "xs \<noteq> [] \<Longrightarrow> \<forall>x\<in>set xs. CHR 0x0A \<notin> set x \<Longrightarrow> strings_Split (strings_Join xs) = xs"
proof (induction xs rule: strings_Join.induct)
  case 1
  then show ?case by simp
next
  case (2 x)
  then show ?case by (simp add: strings_Split_no_newline)
next
  case (3 x y ys)
  then show ?case
    by (simp add: strings_Split_newline strings_Split_no_newline)
qed

lemma normalise_append [simp]: "normalise (xs @ ys) = normalise xs @ normalise ys"
  by (simp add: normalise_def)

lemma normalise_Split_Join:
  assumes "\<forall>x\<in>set xs. CHR 0x0A \<notin> set x"
  shows "normalise (strings_Split (strings_Join xs)) = normalise xs"
proof (cases "xs = []")
  case True
  then show ?thesis by (simp add: normalise_def)
next
  case False
  with assms show ?thesis by (simp add: strings_Split_Join)
qed

lemma map_TrimSpace_scanned_lines:
  "map strings_TrimSpace (scanned_lines sec ls n) = map strings_TrimSpace (take n ls)"
proof -
  have "take n ls = take (min n (first_label sec ls)) ls
      @ take (n - first_label sec ls) (drop (first_label sec ls) ls)"
    by (metis min.commute take_add take_take le_add_diff_inverse min_def nat_le_linear
        diff_is_0_eq' take_0 append_Nil2 min.absorb2 min.absorb1)
  then show ?thesis
    by (simp add: scanned_lines_def)
qed

section \<open>The round trip\<close>

lemma scanned_lines_no_newline:
  assumes "\<forall>l\<in>set ls. CHR 0x0A \<notin> set l" and "x \<in> set (scanned_lines sec ls n)"
  shows "CHR 0x0A \<notin> set x"
proof -
  from assms(2) consider "x \<in> set ls" | l where "l \<in> set ls" "x = strings_TrimSpace l"
    unfolding scanned_lines_def by (auto dest: in_set_takeD in_set_dropD)
  then show ?thesis
    using assms(1) set_TrimSpace by cases auto
qed

text \<open>
  One extraction: up to trimming and blank lines, the document is the remainder, then the
  lines consumed, then the lines dropped.
\<close>

lemma extraction_partition:
  "normalise (strings_Split doc)
     = normalise (strings_Split (remainder_of doc sec) @ consumed doc sec @ dropped doc sec)"
proof -
  let ?ls = "strings_Split doc"
  obtain st :: scan_state and m where sc: "scan_doc doc sec = Inr st"
    and ok: "scan_ok sec ?ls m st"
    and res: "parseDocSection doc sec =
          Inr (if sc_start st = -1 then (doc, [])
               else (strings_Join (take (nat (sc_start st)) (sc_lines st)),
                     entries (take (nat (sc_end st + 1) - nat (sc_start st + 1))
                                (drop (nat (sc_start st + 1)) (sc_lines st))) []))"
    using parseDocSection_scan [of doc sec] by blast
  show ?thesis
  proof (cases "sc_start st = -1")
    case True
    then show ?thesis
      using res sc by (simp add: remainder_of_def consumed_def dropped_def)
  next
    case False
    define k where "k = nat (sc_start st)"
    define e where "e = nat (sc_end st)"
    from ok False have b: "0 \<le> sc_start st" "sc_start st \<le> sc_end st" "sc_end st < int m"
        "m \<le> length ?ls" "take m (sc_lines st) = scanned_lines sec ?ls m"
      by (simp_all add: scan_ok_def)
    have ke: "k \<le> e" "Suc e \<le> m"
      using b by (simp_all add: k_def e_def)
    have rem: "remainder_of doc sec = strings_Join (take k (sc_lines st))"
      using res False by (simp add: remainder_of_def k_def)
    have n1: "nat (sc_end st + 1 - sc_start st) = Suc e - k"
      using b(1,2) unfolding k_def e_def by linarith
    have n2: "nat (sc_end st + 1) = Suc e"
      using b(1,2) unfolding e_def by linarith
    have con: "consumed doc sec = take (Suc e - k) (drop k (sc_lines st))"
      using False by (simp add: consumed_def sc n1 k_def)
    have dro: "dropped doc sec = drop (Suc e) ?ls"
      using False by (simp add: dropped_def sc n2)
    have tk: "take (Suc e) (sc_lines st) = scanned_lines sec ?ls (Suc e)"
    proof -
      have "take (Suc e) (sc_lines st) = take (Suc e) (take m (sc_lines st))"
        using ke by (simp add: min_absorb1)
      then show ?thesis using b(5) ke by (simp add: take_scanned_lines)
    qed
    have tkk: "take k (sc_lines st) = scanned_lines sec ?ls k"
    proof -
      have "take k (sc_lines st) = take k (take (Suc e) (sc_lines st))"
        using ke by (simp add: min_absorb1)
      then show ?thesis using tk ke by (simp add: take_scanned_lines)
    qed
    have nl: "\<forall>x\<in>set (take k (sc_lines st)). CHR 0x0A \<notin> set x"
      unfolding tkk using scanned_lines_no_newline [of ?ls _ sec k] strings_Split_lines [of _ doc]
      by blast
    have split: "take k (sc_lines st) @ take (Suc e - k) (drop k (sc_lines st))
        = take (Suc e) (sc_lines st)"
      using ke take_add [of k "Suc e - k" "sc_lines st"] by simp
    have "normalise (strings_Split (remainder_of doc sec) @ consumed doc sec @ dropped doc sec)
        = normalise (take k (sc_lines st)) @ normalise (take (Suc e - k) (drop k (sc_lines st)))
            @ normalise (drop (Suc e) ?ls)"
      by (simp add: rem con dro normalise_Split_Join [OF nl])
    also have "\<dots> = normalise (take (Suc e) (sc_lines st)) @ normalise (drop (Suc e) ?ls)"
      using split by (metis normalise_append append_assoc)
    also have "\<dots> = normalise (take (Suc e) ?ls) @ normalise (drop (Suc e) ?ls)"
      by (simp add: tk normalise_def map_TrimSpace_scanned_lines)
    also have "\<dots> = normalise ?ls"
      by (metis normalise_append append_take_drop_id)
    finally show ?thesis by simp
  qed
qed

lemma parseErrorDoc_remainder:
  "parseErrorDoc doc = Inr (r, errs) \<Longrightarrow> r = remainder_of doc ErrDocPrefix"
  by (auto simp: parseErrorDoc_def remainder_of_def split: sum.splits)

lemma parsePathDoc_remainder:
  "parsePathDoc doc = Inr (r, docs) \<Longrightarrow> r = remainder_of doc PathDocPrefix"
  by (auto simp: parsePathDoc_def remainder_of_def split: sum.splits)

text \<open>
  Claim C2, as amended. Up to the trimming of white space and to blank lines, the lines of a
  document are the lines of the remainder of \<^verbatim>\<open>parseErrorDoc\<close> then \<^verbatim>\<open>parsePathDoc\<close>, followed
  by the path section and the lines that its extraction dropped, followed by the error
  section and the lines that its extraction dropped. The lines after the last consumed
  line of a section are in neither the remainder nor the section.
\<close>

theorem round_trip_with_dropped:
  "normalise (strings_Split doc) = normalise (reconstruct_all doc)"
proof -
  obtain r1 errs where 1: "parseErrorDoc doc = Inr (r1, errs)"
    using parseErrorDoc_Inr by blast
  obtain r2 docs where 2: "parsePathDoc r1 = Inr (r2, docs)"
    using parsePathDoc_Inr by blast
  have r1: "r1 = remainder_of doc ErrDocPrefix"
    using 1 by (rule parseErrorDoc_remainder)
  have r2: "r2 = remainder_of r1 PathDocPrefix"
    using 2 by (rule parsePathDoc_remainder)
  have "normalise (reconstruct_all doc)
      = normalise (strings_Split r2 @ consumed r1 PathDocPrefix @ dropped r1 PathDocPrefix)
          @ normalise (consumed doc ErrDocPrefix @ dropped doc ErrDocPrefix)"
    by (simp add: reconstruct_all_def 1 2)
  also have "\<dots> = normalise (strings_Split r1)
          @ normalise (consumed doc ErrDocPrefix @ dropped doc ErrDocPrefix)"
    using extraction_partition [of r1 PathDocPrefix] by (simp only: r2)
  also have "\<dots> = normalise (strings_Split doc)"
    using extraction_partition [of doc ErrDocPrefix] by (simp add: r1)
  finally show ?thesis by simp
qed

text \<open>
  Claim C2 as the spec states it: the remainder and the consumed sections alone would
  give the document back. The note after the two empty lines is a line of the document
  and no line of the reconstruction.
\<close>

theorem round_trip_counterexample:
  "''trailing note'' \<in> set (normalise (strings_Split
       ''Does X.\<newline>path params:\<newline>- id: the id\<newline>errors:\<newline>- NotFound: nope\<newline>\<newline>\<newline>trailing note''))
   \<and> ''trailing note'' \<notin> set (normalise (reconstruct
       ''Does X.\<newline>path params:\<newline>- id: the id\<newline>errors:\<newline>- NotFound: nope\<newline>\<newline>\<newline>trailing note''))
   \<and> reconstruct ''Does X.\<newline>path params:\<newline>- id: the id\<newline>errors:\<newline>- NotFound: nope\<newline>\<newline>\<newline>trailing note''
       = [''Does X.'', ''path params:'', ''- id: the id'', ''errors:'', ''- NotFound: nope'', [], []]"
  by code_simp

end
